(* ===== verification/Prelude.thy ===== *)
theory Prelude
  imports Main "HOL-Library.Word"
begin

text \<open>
  Shared vocabulary of the development: the machine integers of the Rust code as words,
  byte strings, \<open>std::io::Error\<close> values and \<open>io::Result\<close> as a sum, the outcome of one
  \<open>read\<close> call on a serial port or socket, and the generic lemmas on lists, XOR and
  folds that several components use.  The collections \<open>wire_simps\<close> and
  \<open>handler_simps\<close> gather the unfolding rules of the byte-level operations and of the
  message handlers.  The locales \<open>event_machine\<close> and \<open>polling_loop\<close> are the contracts of handlers and of
  blocking loops.
\<close>

unbundle bit_operations_syntax

named_theorems wire_simps
named_theorems handler_simps

section \<open>Machine integers, bytes and strings\<close>

text \<open>
  \<open>u8\<close>, \<open>u16\<close> and \<open>u32\<close> are words.  An \<open>i32\<close> of the code is the same 32-bit pattern: the code
  only compares such values for equality and casts them to and from \<open>u32\<close> with \<open>as\<close>, which keeps the
  bits.  A Rust \<open>String\<close> is its UTF-8 byte sequence, one \<open>char\<close> per byte.
\<close>

type_synonym u8 = "8 word"
type_synonym u16 = "16 word"
type_synonym u32 = "32 word"
type_synonym i32 = "32 word"
type_synonym bytes = "u8 list"

definition as_bytes :: "string \<Rightarrow> bytes" where
  "as_bytes s = map of_char s"

lemma as_bytes_simps [simp]:
  "as_bytes [] = []"
  "as_bytes (c # s) = of_char c # as_bytes s"
  "as_bytes (s @ t) = as_bytes s @ as_bytes t"
  "length (as_bytes s) = length s"
  by (simp_all add: as_bytes_def)

section \<open>Errors and I/O outcomes\<close>

datatype io_kind = TimedOut | WouldBlock | UnexpectedEof | InvalidData | NotFound | OtherKind

datatype io_error = Io_error (error_kind: io_kind) string

type_synonym 'a io_result = "io_error + 'a"

text \<open>
  What one \<open>read(&mut buf)\<close> or \<open>recv_from(&mut buf)\<close> returns: the bytes stored at the front of the
  buffer (\<open>Ok(n)\<close> with \<open>&buf[..n]\<close>), or an error.
\<close>

datatype read_outcome = Read_ok bytes | Read_err io_error

definition read_bytes :: "read_outcome \<Rightarrow> bytes" where
  "read_bytes outcome = (case outcome of Read_ok data \<Rightarrow> data | Read_err e \<Rightarrow> [])"

fun bind_result :: "'e + 'a \<Rightarrow> ('a \<Rightarrow> 'e + 'b) \<Rightarrow> 'e + 'b" where
  "bind_result (Inl e) f = Inl e"
| "bind_result (Inr x) f = f x"

lemma bind_result_eq_Inr [simp]:
  "bind_result m f = Inr y \<longleftrightarrow> (\<exists>x. m = Inr x \<and> f x = Inr y)"
  by (cases m) auto

lemma bind_result_assoc: "bind_result (bind_result m f) g = bind_result m (\<lambda>x. bind_result (f x) g)"
  by (cases m) auto

section \<open>XOR on bytes\<close>

lemma xor_cancel_right [simp]: "(a XOR b) XOR b = (a :: 'a::len word)"
  by (simp add: xor.assoc)

definition xor_all :: "bytes \<Rightarrow> u8" where
  "xor_all bs = foldl (XOR) 0 bs"

lemma foldl_xor: "foldl (XOR) a bs = (a XOR xor_all bs :: u8)"
proof (induction bs arbitrary: a)
  case Nil
  show ?case by (simp add: xor_all_def)
next
  case (Cons b bs)
  have "xor_all (b # bs) = b XOR xor_all bs"
    using Cons [of b] by (simp add: xor_all_def)
  with Cons [of "a XOR b"] show ?case by (simp add: xor.assoc)
qed

lemma xor_all_simps [simp]:
  "xor_all [] = 0"
  "xor_all (b # bs) = b XOR xor_all bs"
  "xor_all (as @ bs) = xor_all as XOR xor_all bs"
proof -
  show "xor_all [] = 0" by (simp add: xor_all_def)
  show Cons: "xor_all (b # bs) = b XOR xor_all bs" for b bs
    using foldl_xor [of b bs] by (simp add: xor_all_def)
  show "xor_all (as @ bs) = xor_all as XOR xor_all bs"
    using foldl_xor [of "xor_all as" bs] by (simp add: xor_all_def)
qed

section \<open>Lists\<close>

lemma find_cong_filter: "find P xs = (case filter P xs of [] \<Rightarrow> None | x # _ \<Rightarrow> Some x)"
  by (induction xs) auto

lemma find_SomeD: "find P xs = Some x \<Longrightarrow> x \<in> set xs \<and> P x"
  by (induction xs) (auto split: if_splits)

lemma find_distinct_key:
  "distinct (map f xs) \<Longrightarrow> x \<in> set xs \<Longrightarrow> find (\<lambda>y. f y = f x) xs = Some x"
  by (induction xs) (auto simp: rev_image_eqI)

lemma drop_snoc_Suc:
  "length xs = Suc n \<Longrightarrow> drop 1 (xs @ [x]) = drop 1 xs @ [x]"
  by simp

text \<open>\<open>Iterator::position\<close>: the index of the first element that satisfies the predicate.\<close>

fun position :: "('a \<Rightarrow> bool) \<Rightarrow> 'a list \<Rightarrow> nat option" where
  "position p [] = None"
| "position p (x # xs) = (if p x then Some 0 else map_option Suc (position p xs))"

lemma position_SomeD: "position p xs = Some i \<Longrightarrow> i < length xs \<and> p (xs ! i) \<and> (\<forall>j < i. \<not> p (xs ! j))"
proof (induction xs arbitrary: i)
  case (Cons x xs)
  show ?case
  proof (cases "p x")
    case False
    with Cons.prems obtain i' where i: "position p xs = Some i'" "i = Suc i'" by auto
    have "\<not> p ((x # xs) ! j)" if "j < i" for j
      using Cons.IH [OF i(1)] False that i(2) by (cases j) auto
    with Cons.IH [OF i(1)] i(2) show ?thesis by simp
  qed (use Cons.prems in auto)
qed simp

lemma position_map: "position p xs = position id (map p xs)"
  by (induction xs) simp_all

lemma position_update:
  assumes "i < length xs" and "p x = p (xs ! i)"
  shows "position p (xs[i := x]) = position p xs"
proof -
  have "map p (xs[i := x]) = map p xs"
    using assms by (simp add: map_update list_update_same_conv)
  then show ?thesis using position_map [of p "xs[i := x]"] position_map [of p xs] by simp
qed

lemma position_update_True:
  "position p xs = Some i \<Longrightarrow> p x \<Longrightarrow> position p (xs[i := x]) = Some i"
  using position_SomeD [of p xs i] by (simp add: position_update)

lemma position_append:
  "position p (xs @ ys) = (case position p xs of Some i \<Rightarrow> Some i | None \<Rightarrow> map_option ((+) (length xs)) (position p ys))"
  by (cases "position p ys"; induction xs) (auto split: option.split)

lemma position_None_iff: "position p xs = None \<longleftrightarrow> (\<forall>x \<in> set xs. \<not> p x)"
  by (induction xs) auto

lemma position_find: "position p xs = Some i \<Longrightarrow> find p xs = Some (xs ! i)"
  by (induction xs arbitrary: i) (auto split: if_splits)

lemma position_None_find: "position p xs = None \<longleftrightarrow> find p xs = None"
  by (auto simp: position_None_iff find_None_iff)

section \<open>Machines that react to events\<close>

text \<open>
  A component that handles events one at a time and emits outputs.  The locale is the contract such a
  handler has: every step keeps an invariant.  Its lemmas carry that to whole runs.
\<close>

fun run_steps :: "('s \<Rightarrow> 'e \<Rightarrow> 's \<times> 'o list) \<Rightarrow> 's \<Rightarrow> 'e list \<Rightarrow> 's \<times> 'o list" where
  "run_steps step s [] = (s, [])"
| "run_steps step s (e # es) =
     (case step s e of (s', out) \<Rightarrow>
        (case run_steps step s' es of (s'', out') \<Rightarrow> (s'', out @ out')))"

lemma run_steps_fst_Cons: "fst (run_steps step s (e # es)) = fst (run_steps step (fst (step s e)) es)"
  by (simp split: prod.split)

lemma run_steps_snd_Cons:
  "snd (run_steps step s (e # es)) = snd (step s e) @ snd (run_steps step (fst (step s e)) es)"
  by (simp split: prod.split)

locale event_machine =
  fixes step :: "'s \<Rightarrow> 'e \<Rightarrow> 's \<times> 'o list"
    and inv :: "'s \<Rightarrow> bool"
  assumes keeps: "inv s \<Longrightarrow> inv (fst (step s e))"
begin

lemma run_keeps: "inv s \<Longrightarrow> inv (fst (run_steps step s es))"
  by (induction es arbitrary: s) (simp_all only: run_steps_fst_Cons run_steps.simps(1) fst_conv keeps)

lemma run_append:
  "snd (run_steps step s (es @ fs)) = snd (run_steps step s es) @ snd (run_steps step (fst (run_steps step s es)) fs)"
  "fst (run_steps step s (es @ fs)) = fst (run_steps step (fst (run_steps step s es)) fs)"
  by (induction es arbitrary: s) (simp_all only: append_Cons run_steps_fst_Cons run_steps_snd_Cons append_assoc
      run_steps.simps(1) append_Nil fst_conv snd_conv)

lemma run_output_origin:
  assumes "inv s" and "out \<in> set (snd (run_steps step s es))"
  shows "\<exists>s' e. inv s' \<and> e \<in> set es \<and> out \<in> set (snd (step s' e))"
  using assms
proof (induction es arbitrary: s)
  case Nil
  then show ?case by simp
next
  case (Cons e es)
  from Cons.prems(2) consider "out \<in> set (snd (step s e))"
    | "out \<in> set (snd (run_steps step (fst (step s e)) es))"
    by (auto simp: run_steps_snd_Cons simp del: run_steps.simps)
  then show ?case
    using Cons.IH [OF keeps [OF Cons.prems(1)]] Cons.prems(1) by cases (auto, blast)
qed

end

section \<open>Loops that poll\<close>

text \<open>
  A blocking loop that takes one input in each turn, emits outputs, and goes on or returns.  The contract is that
  the loop is the iteration of its turns, and that some inputs, such as a clock past the deadline, end it.
\<close>

locale polling_loop =
  fixes turn :: "'s \<Rightarrow> 'i \<Rightarrow> 'w list \<times> ('s + 'r)"
    and run :: "'s \<Rightarrow> 'i list \<Rightarrow> 'w list \<times> 'r option"
    and is_last :: "'i \<Rightarrow> bool"
  assumes pending: "run s [] = ([], None)"
    and by_turns: "run s (i # is) = (case turn s i of
        (ws, Inr r) \<Rightarrow> (ws, Some r)
      | (ws, Inl s') \<Rightarrow> (case run s' is of (ws', r) \<Rightarrow> (ws @ ws', r)))"
    and stops: "is_last i \<Longrightarrow> \<exists>r. snd (turn s i) = Inr r"
begin

lemma goes_on: "turn s i = (ws, Inl s') \<Longrightarrow> run s (i # is) = (ws @ fst (run s' is), snd (run s' is))"
  by (simp add: by_turns split_beta)

lemma ends: "turn s i = (ws, Inr r) \<Longrightarrow> run s (i # is) = (ws, Some r)"
  by (simp add: by_turns)

lemma returns: "i \<in> set is \<Longrightarrow> is_last i \<Longrightarrow> snd (run s is) \<noteq> None"
proof (induction "is" arbitrary: s)
  case (Cons j "is")
  obtain ws step where turn: "turn s j = (ws, step)" by fastforce
  show ?case
  proof (cases step)
    case (Inl s')
    with turn stops [of j s] Cons.prems have "i \<in> set is" by auto
    with Cons.IH [of s'] Cons.prems(2) turn Inl show ?thesis by (simp add: goes_on)
  qed (use turn in \<open>simp add: ends\<close>)
qed simp

lemma later_inputs_ignored: "snd (run s is) \<noteq> None \<Longrightarrow> run s (is @ js) = run s is"
proof (induction "is" arbitrary: s)
  case (Cons i "is")
  obtain ws step where "turn s i = (ws, step)" by fastforce
  with Cons show ?case by (cases step) (simp_all add: goes_on ends)
qed (simp add: pending)

lemma outputs:
  assumes "\<And>s i w. w \<in> set (fst (turn s i)) \<Longrightarrow> Q w" and "w \<in> set (fst (run s is))"
  shows "Q w"
  using assms(2)
proof (induction "is" arbitrary: s)
  case (Cons i "is")
  obtain ws step where turn: "turn s i = (ws, step)" by fastforce
  with assms(1) [of _ s i] have "v \<in> set ws \<Longrightarrow> Q v" for v by simp
  with Cons turn show ?case by (cases step) (auto simp: goes_on ends)
qed (simp add: pending)

end

end
