(* ===== verification/Framing.thy ===== *)
theory Framing
  imports Prelude
begin

text \<open>
  Model of \<open>src/serial_framing.rs\<close>: the byte-driven \<open>FrameReader\<close> state machine and
  \<open>frame_payload\<close>.
\<close>

section \<open>Constants and state\<close>

definition START1 :: u8 where "START1 = 0x94"
definition START2 :: u8 where "START2 = 0xC3"
definition MAX_PACKET_SIZE :: nat where "MAX_PACKET_SIZE = 512"

datatype rstate =
    WaitStart1
  | WaitStart2
  | ReadLenHigh
  | ReadLenLow u8
  | ReadPayload nat

record frame_reader =
  state :: rstate
  buf :: bytes

definition FrameReader_new :: frame_reader where
  "FrameReader_new = \<lparr>state = WaitStart1, buf = []\<rparr>"

section \<open>Operations\<close>

definition frame_len :: "u8 \<Rightarrow> u8 \<Rightarrow> nat" where
  "frame_len high low = (push_bit 8 (unat high)) OR unat low"

definition feed :: "frame_reader \<Rightarrow> u8 \<Rightarrow> frame_reader \<times> bytes option" where
  "feed r byte = (case state r of
     WaitStart1 \<Rightarrow>
       (if byte = START1 then r\<lparr>state := WaitStart2\<rparr> else r, None)
   | WaitStart2 \<Rightarrow>
       (if byte = START2 then r\<lparr>state := ReadLenHigh\<rparr>
        else if byte = START1 then r
        else r\<lparr>state := WaitStart1\<rparr>, None)
   | ReadLenHigh \<Rightarrow> (r\<lparr>state := ReadLenLow byte\<rparr>, None)
   | ReadLenLow high \<Rightarrow>
       (let len = frame_len high byte in
        if len > MAX_PACKET_SIZE then (r\<lparr>state := WaitStart1\<rparr>, None)
        else if len = 0 then (r\<lparr>state := WaitStart1\<rparr>, Some [])
        else (r\<lparr>buf := [], state := ReadPayload len\<rparr>, None))
   | ReadPayload expected \<Rightarrow>
       (let buf' = buf r @ [byte] in
        if length buf' \<ge> expected
        then (r\<lparr>state := WaitStart1, buf := []\<rparr>, Some buf')
        else (r\<lparr>buf := buf'\<rparr>, None)))"

fun feed_bytes :: "frame_reader \<Rightarrow> bytes \<Rightarrow> frame_reader \<times> bytes list" where
  "feed_bytes r [] = (r, [])"
| "feed_bytes r (byte # data) =
     (case feed r byte of
        (r', None) \<Rightarrow> feed_bytes r' data
      | (r', Some payload) \<Rightarrow>
          (case feed_bytes r' data of (r'', frames) \<Rightarrow> (r'', payload # frames)))"

definition frame_payload :: "bytes \<Rightarrow> bytes" where
  "frame_payload payload =
     (let len = length payload in
      [START1, START2, of_nat (drop_bit 8 len), of_nat (len AND 0xFF)] @ payload)"

text \<open>What evaluates the reader on concrete bytes.\<close>

lemmas framing_wire_simps [wire_simps] =
  START1_def START2_def MAX_PACKET_SIZE_def frame_len_def feed_def FrameReader_new_def Let_def

section \<open>The length field\<close>

lemma frame_len_eq: "frame_len high low = 256 * unat high + unat low"
proof -
  have "unat low < 2 ^ 8"
    using unsigned_less [of low] by simp
  then have lt: "bit (unat low) n \<Longrightarrow> n < 8" for n
    by (metis bit_take_bit_iff take_bit_nat_eq_self_iff)
  have "push_bit 8 (unat high) AND unat low = 0"
    by (rule bit_eqI) (auto simp: bit_and_iff bit_push_bit_iff dest: lt)
  then have "frame_len high low = push_bit 8 (unat high) + unat low"
    by (simp add: frame_len_def disjunctive_add_eq_or)
  then show ?thesis by (simp add: push_bit_eq_mult)
qed

lemma frame_len_header:
  "frame_len (of_nat (drop_bit 8 n)) (of_nat (n AND 0xFF)) = n mod 65536"
proof -
  have "n AND 0xFF = n mod 256"
    using take_bit_eq_mask [of 8 n] by (simp add: take_bit_eq_mod mask_eq_exp_minus_1)
  moreover have "drop_bit 8 n = n div 256"
    by (simp add: drop_bit_eq_div)
  moreover have "256 * (n div 256 mod 256) + n mod 256 = n mod 65536"
    using mod_mult2_eq [of n 256 256] by simp
  ultimately show ?thesis
    by (simp add: frame_len_eq unat_of_nat)
qed

section \<open>Well-formed readers\<close>

text \<open>
  Between frames the buffer is empty; while a payload is read the buffer is shorter than the announced
  length, which is at most \<open>MAX_PACKET_SIZE\<close>.
\<close>

definition reader_ok :: "frame_reader \<Rightarrow> bool" where
  "reader_ok r = (case state r of
     ReadPayload n \<Rightarrow> n \<le> MAX_PACKET_SIZE \<and> length (buf r) < n
   | _ \<Rightarrow> buf r = [])"

lemma reader_ok_new [simp]: "reader_ok FrameReader_new"
  by (simp add: reader_ok_def FrameReader_new_def)

lemma START_neq [simp]: "START1 \<noteq> START2" "START2 \<noteq> START1"
  by (simp_all add: START1_def START2_def)

lemma feed_ok:
  assumes "reader_ok r" and "feed r b = (r', out)"
  shows "reader_ok r' \<and> (\<forall>p. out = Some p \<longrightarrow> length p \<le> MAX_PACKET_SIZE)"
  using assms
  by (auto simp: reader_ok_def feed_def Let_def split: rstate.splits if_splits)

lemma feed_bytes_ok:
  assumes "reader_ok r" and "feed_bytes r bs = (r', frames)"
  shows "reader_ok r' \<and> (\<forall>p \<in> set frames. length p \<le> MAX_PACKET_SIZE)"
  using assms
proof (induction bs arbitrary: r r' frames)
  case Nil
  then show ?case by simp
next
  case (Cons b bs)
  obtain r1 out where f: "feed r b = (r1, out)" by fastforce
  note ok = feed_ok [OF Cons.prems(1) f]
  from Cons.prems(2) f show ?case
    using Cons.IH [of r1] ok by (auto split: option.splits prod.splits)
qed

section \<open>Feeding a stream in pieces\<close>

lemma feed_bytes_append:
  "feed_bytes r (xs @ ys) =
     (case feed_bytes r xs of (r', fs) \<Rightarrow>
        (case feed_bytes r' ys of (r'', gs) \<Rightarrow> (r'', fs @ gs)))"
  by (induction xs arbitrary: r) (auto split: prod.splits option.splits)

lemma feed_bytes_one: "feed_bytes r [b] = (case feed r b of (r', out) \<Rightarrow> (r', case out of None \<Rightarrow> [] | Some p \<Rightarrow> [p]))"
  by (auto split: prod.splits option.splits)

lemma feed_payload_partial:
  assumes "state r = ReadPayload n" and "length (buf r) + length p < n"
  shows "feed_bytes r p = (r\<lparr>buf := buf r @ p\<rparr>, [])"
  using assms
proof (induction p arbitrary: r)
  case Nil
  then show ?case by simp
next
  case (Cons b p)
  then have "feed r b = (r\<lparr>buf := buf r @ [b]\<rparr>, None)"
    by (simp add: feed_def)
  with Cons.IH [of "r\<lparr>buf := buf r @ [b]\<rparr>"] Cons.prems show ?case by simp
qed

lemma feed_payload_complete:
  assumes "state r = ReadPayload n" and "length (buf r) + length p = n" and "p \<noteq> []"
  shows "feed_bytes r p = (r\<lparr>state := WaitStart1, buf := []\<rparr>, [buf r @ p])"
proof -
  obtain q b where p: "p = q @ [b]"
    using assms(3) by (metis append_butlast_last_id)
  with assms have part: "feed_bytes r q = (r\<lparr>buf := buf r @ q\<rparr>, [])"
    by (intro feed_payload_partial) auto
  have "feed (r\<lparr>buf := buf r @ q\<rparr>) b = (r\<lparr>state := WaitStart1, buf := []\<rparr>, Some (buf r @ q @ [b]))"
    using assms p by (simp add: feed_def)
  with part show ?thesis by (simp add: p feed_bytes_append)
qed

lemma feed_header:
  assumes "state r = WaitStart1 \<or> state r = WaitStart2"
  shows "feed_bytes r (START1 # START2 # hi # lo # rest) =
    (if frame_len hi lo > MAX_PACKET_SIZE then feed_bytes (r\<lparr>state := WaitStart1\<rparr>) rest
     else if frame_len hi lo = 0 then
       (case feed_bytes (r\<lparr>state := WaitStart1\<rparr>) rest of (r', fs) \<Rightarrow> (r', [] # fs))
     else feed_bytes (r\<lparr>buf := [], state := ReadPayload (frame_len hi lo)\<rparr>) rest)"
proof -
  have hunt: "feed_bytes r (START1 # bs) = feed_bytes (r\<lparr>state := WaitStart2\<rparr>) bs" for bs
  proof (cases "state r = WaitStart2")
    case True
    then show ?thesis by (cases r) (simp add: feed_def)
  next
    case False
    with assms show ?thesis by (simp add: feed_def)
  qed
  have sync: "feed_bytes (r\<lparr>state := WaitStart2\<rparr>) (START2 # hi # lo # rest)
      = feed_bytes (r\<lparr>state := ReadLenLow hi\<rparr>) (lo # rest)"
    by (simp add: feed_def)
  have body: "feed_bytes (r\<lparr>state := ReadLenLow hi\<rparr>) (lo # rest) =
    (if frame_len hi lo > MAX_PACKET_SIZE then feed_bytes (r\<lparr>state := WaitStart1\<rparr>) rest
     else if frame_len hi lo = 0 then
       (case feed_bytes (r\<lparr>state := WaitStart1\<rparr>) rest of (r', fs) \<Rightarrow> (r', [] # fs))
     else feed_bytes (r\<lparr>buf := [], state := ReadPayload (frame_len hi lo)\<rparr>) rest)"
    by (simp add: feed_def Let_def)
  show ?thesis by (simp only: hunt sync body)
qed

section \<open>Delivery\<close>

lemma frame_payload_shape:
  "frame_payload p =
     START1 # START2 # of_nat (drop_bit 8 (length p)) # of_nat (length p AND 0xFF) # p"
  by (simp add: frame_payload_def Let_def)

lemma frame_payload_short:
  assumes "length p < 256"
  shows "frame_payload p = START1 # START2 # 0 # of_nat (length p) # p"
proof -
  have "drop_bit 8 (length p) = 0"
    using assms by (simp add: drop_bit_eq_div)
  moreover have "length p AND 255 = length p"
    using assms take_bit_eq_mask [of 8 "length p"]
    by (simp add: take_bit_eq_mod mask_eq_exp_minus_1)
  ultimately show ?thesis by (simp add: frame_payload_shape)
qed

lemma length_frame_payload [simp]: "length (frame_payload p) = length p + 4"
  by (simp add: frame_payload_shape)

lemma feed_frame_cases:
  assumes "state r = WaitStart1 \<or> state r = WaitStart2" and "buf r = []"
  shows "feed_bytes r (frame_payload p) =
    (let n = length p mod 65536 in
     if MAX_PACKET_SIZE < n then feed_bytes FrameReader_new p
     else if n = 0 then (case feed_bytes FrameReader_new p of (r', fs) \<Rightarrow> (r', [] # fs))
     else feed_bytes (FrameReader_new\<lparr>state := ReadPayload n\<rparr>) p)"
proof -
  have idle: "r\<lparr>state := WaitStart1\<rparr> = FrameReader_new"
    and payload: "r\<lparr>buf := [], state := ReadPayload n\<rparr> = FrameReader_new\<lparr>state := ReadPayload n\<rparr>" for n
    using assms(2) by (cases r; simp add: FrameReader_new_def)+
  show ?thesis
    by (simp only: frame_payload_shape feed_header [OF assms(1)] frame_len_header idle payload Let_def)
qed

lemma feed_announced:
  assumes "0 < n" and "length q = n"
  shows "feed_bytes (FrameReader_new\<lparr>state := ReadPayload n\<rparr>) (q @ rest) =
    (case feed_bytes FrameReader_new rest of (r', fs) \<Rightarrow> (r', q # fs))"
proof -
  from assms have "q \<noteq> []" by auto
  with assms have "feed_bytes (FrameReader_new\<lparr>state := ReadPayload n\<rparr>) q = (FrameReader_new, [q])"
    by (simp add: feed_payload_complete FrameReader_new_def)
  then show ?thesis by (simp only: feed_bytes_append) (simp split: prod.splits)
qed

lemma feed_frame:
  assumes "state r = WaitStart1 \<or> state r = WaitStart2" and "buf r = []"
    and "length p \<le> MAX_PACKET_SIZE"
  shows "feed_bytes r (frame_payload p) = (FrameReader_new, [p])"
proof -
  have len: "length p mod 65536 = length p"
    using assms(3) by (simp add: MAX_PACKET_SIZE_def)
  have "feed_bytes (FrameReader_new\<lparr>state := ReadPayload (length p)\<rparr>) p = (FrameReader_new, [p])"
    if "p \<noteq> []"
    using that feed_announced [of "length p" p "[]"] by simp
  with assms(3) show ?thesis
    by (simp only: feed_frame_cases [OF assms(1,2)] len Let_def) auto
qed

lemma new_is_idle: "state FrameReader_new = WaitStart1 \<or> state FrameReader_new = WaitStart2"
    "buf FrameReader_new = []"
  by (simp_all add: FrameReader_new_def)

lemma feed_frame_oversize:
  assumes "MAX_PACKET_SIZE < length p" and "length p < 65536"
  shows "feed_bytes FrameReader_new (frame_payload p) = feed_bytes FrameReader_new p"
  using assms by (simp only: feed_frame_cases [OF new_is_idle] Let_def) simp

text \<open>
  From 65536 bytes on, the two length bytes hold the length modulo 65536: a reader takes the first
  \<open>length p mod 65536\<close> bytes for the frame and hunts for a header in the rest.
\<close>

lemma feed_frame_wrapped:
  assumes "length p mod 65536 \<le> MAX_PACKET_SIZE"
  shows "feed_bytes FrameReader_new (frame_payload p) =
    (case feed_bytes FrameReader_new (drop (length p mod 65536) p) of
       (r, frames) \<Rightarrow> (r, take (length p mod 65536) p # frames))"
proof (cases "length p mod 65536 = 0")
  case True
  then show ?thesis by (simp only: feed_frame_cases [OF new_is_idle] Let_def) simp
next
  case False
  let ?n = "length p mod 65536"
  have "length (take ?n p) = ?n" by simp
  with False have "feed_bytes (FrameReader_new\<lparr>state := ReadPayload ?n\<rparr>) (take ?n p @ drop ?n p) =
      (case feed_bytes FrameReader_new (drop ?n p) of (r', fs) \<Rightarrow> (r', take ?n p # fs))"
    by (intro feed_announced) auto
  then show ?thesis
    using assms False by (simp only: feed_frame_cases [OF new_is_idle] Let_def append_take_drop_id) simp
qed

section \<open>Reference parser for a whole stream\<close>

text \<open>
  What the reader is meant to compute, written over the complete byte stream instead of byte by byte:
  \<open>hunt\<close> looks for a first start byte, \<open>sync\<close> for the second one, \<open>body\<close> reads the length and cuts the
  payload off.
\<close>

function hunt :: "bytes \<Rightarrow> bytes list" and sync :: "bytes \<Rightarrow> bytes list" and body :: "bytes \<Rightarrow> bytes list" where
  "hunt [] = []"
| "hunt (b # bs) = (if b = START1 then sync bs else hunt bs)"
| "sync [] = []"
| "sync (b # bs) = (if b = START2 then body bs else if b = START1 then sync bs else hunt bs)"
| "body [] = []"
| "body [hi] = []"
| "body (hi # lo # bs) =
     (let n = frame_len hi lo in
      if MAX_PACKET_SIZE < n then hunt bs
      else if length bs < n then []
      else take n bs # hunt (drop n bs))"
  by pat_completeness auto
termination
  by (relation "measure (\<lambda>x. case x of Inl a \<Rightarrow> length a | Inr (Inl a) \<Rightarrow> length a | Inr (Inr a) \<Rightarrow> length a)")
     auto

lemma feed_bytes_reference:
  "snd (feed_bytes \<lparr>state = WaitStart1, buf = []\<rparr> s1) = hunt s1"
  "snd (feed_bytes \<lparr>state = WaitStart2, buf = []\<rparr> s2) = sync s2"
  "snd (feed_bytes \<lparr>state = ReadLenHigh, buf = []\<rparr> s3) = body s3"
proof (induction s1 and s2 and s3 rule: hunt_sync_body.induct)
  case (7 hi lo bs)
  let ?n = "frame_len hi lo"
  let ?r = "\<lparr>state = ReadPayload ?n, buf = []\<rparr>"
  consider "MAX_PACKET_SIZE < ?n" | "?n \<le> MAX_PACKET_SIZE" "?n = 0"
    | "?n \<le> MAX_PACKET_SIZE" "0 < ?n" "length bs < ?n" | "?n \<le> MAX_PACKET_SIZE" "0 < ?n" "?n \<le> length bs"
    by linarith
  then show ?case
  proof cases
    case 1
    with 7 show ?thesis by (simp add: feed_def Let_def)
  next
    case 2
    with 7 show ?thesis
      by (cases "feed_bytes \<lparr>state = WaitStart1, buf = []\<rparr> bs")
        (simp add: feed_def Let_def MAX_PACKET_SIZE_def)
  next
    case 3
    then show ?thesis
      using feed_payload_partial [of ?r ?n bs] by (simp add: feed_def Let_def)
  next
    case 4
    then have len: "length (take ?n bs) = ?n" by simp
    with 4(2) have "take ?n bs \<noteq> []" by (metis length_0_conv less_numeral_extra(3))
    then have head: "feed_bytes ?r (take ?n bs) = (\<lparr>state = WaitStart1, buf = []\<rparr>, [take ?n bs])"
      using feed_payload_complete [of ?r ?n "take ?n bs"] len by simp
    have "feed_bytes ?r bs = feed_bytes ?r (take ?n bs @ drop ?n bs)" by simp
    also have "snd \<dots> = take ?n bs # snd (feed_bytes \<lparr>state = WaitStart1, buf = []\<rparr> (drop ?n bs))"
      by (simp only: feed_bytes_append head) (simp split: prod.splits)
    finally show ?thesis
      using 4 7 by (simp add: feed_def Let_def not_less)
  qed
qed (simp_all add: feed_def)

section \<open>Resynchronisation\<close>

text \<open>
  \<open>need r\<close> is the largest number of bytes other than \<open>START1\<close> that can pass before the reader is
  waiting for a frame again.
\<close>

definition need :: "frame_reader \<Rightarrow> nat" where
  "need r = (case state r of
     WaitStart1 \<Rightarrow> 0
   | WaitStart2 \<Rightarrow> 3 + MAX_PACKET_SIZE
   | ReadLenHigh \<Rightarrow> 2 + MAX_PACKET_SIZE
   | ReadLenLow high \<Rightarrow> 1 + MAX_PACKET_SIZE
   | ReadPayload n \<Rightarrow> n - length (buf r))"

lemma feed_need:
  assumes "reader_ok r" and "b \<noteq> START1"
  shows "need (fst (feed r b)) \<le> need r - 1"
  using assms
  by (auto simp: reader_ok_def need_def feed_def Let_def split: rstate.splits if_splits)

lemma feed_bytes_fst: "fst (feed_bytes r (b # bs)) = fst (feed_bytes (fst (feed r b)) bs)"
  by (simp split: prod.splits option.splits)

lemma feed_bytes_need:
  assumes "reader_ok r" and "START1 \<notin> set bs"
  shows "need (fst (feed_bytes r bs)) \<le> need r - length bs"
  using assms
proof (induction bs arbitrary: r)
  case Nil
  then show ?case by simp
next
  case (Cons b bs)
  have ok: "reader_ok (fst (feed r b))"
    using feed_ok [OF Cons.prems(1)] by (metis prod.collapse)
  have "need (fst (feed_bytes (fst (feed r b)) bs)) \<le> need (fst (feed r b)) - length bs"
    using Cons.IH [OF ok] Cons.prems(2) by simp
  also have "\<dots> \<le> need r - 1 - length bs"
    using feed_need [OF Cons.prems(1), of b] Cons.prems(2) by (intro diff_le_mono) auto
  finally show ?case by (simp only: feed_bytes_fst) simp
qed

lemma need_bound: "reader_ok r \<Longrightarrow> need r \<le> 515"
  by (auto simp: need_def reader_ok_def MAX_PACKET_SIZE_def split: rstate.splits)

lemma need_zero: "reader_ok r \<Longrightarrow> need r = 0 \<Longrightarrow> r = FrameReader_new"
  by (cases r) (auto simp: need_def reader_ok_def FrameReader_new_def split: rstate.splits)

lemma feed_bytes_resync:
  assumes "reader_ok r" and "START1 \<notin> set filler" and "515 \<le> length filler"
  shows "fst (feed_bytes r filler) = FrameReader_new"
proof (rule need_zero)
  show "reader_ok (fst (feed_bytes r filler))"
    using feed_bytes_ok [OF assms(1)] by (metis prod.collapse)
  show "need (fst (feed_bytes r filler)) = 0"
    using feed_bytes_need [OF assms(1,2)] need_bound [OF assms(1)] assms(3) by simp
qed

section \<open>The link interface\<close>

text \<open>
  What the users of the serial link rely on: a receiver \<open>feed_all\<close>, a sender \<open>wrap\<close>, and the promise
  that every payload up to \<open>limit\<close> bytes arrives.  Whoever writes frames to the port or hands the bytes
  of a \<open>read\<close> to the reader only needs these laws.
\<close>

fun feed_chunks :: "('r \<Rightarrow> bytes \<Rightarrow> 'r \<times> bytes list) \<Rightarrow> 'r \<Rightarrow> bytes list \<Rightarrow> 'r \<times> bytes list" where
  "feed_chunks feed_all r [] = (r, [])"
| "feed_chunks feed_all r (c # cs) =
     (case feed_all r c of (r', fs) \<Rightarrow>
        (case feed_chunks feed_all r' cs of (r'', gs) \<Rightarrow> (r'', fs @ gs)))"

locale frame_link =
  fixes idle :: 'r
    and feed_all :: "'r \<Rightarrow> bytes \<Rightarrow> 'r \<times> bytes list"
    and wrap :: "bytes \<Rightarrow> bytes"
    and limit :: nat
  assumes feed_none: "feed_all r [] = (r, [])"
    and feed_split: "feed_all r (xs @ ys) =
      (case feed_all r xs of (r', fs) \<Rightarrow> (case feed_all r' ys of (r'', gs) \<Rightarrow> (r'', fs @ gs)))"
    and arrives: "length p \<le> limit \<Longrightarrow> feed_all idle (wrap p) = (idle, [p])"
begin

lemma batch_arrives:
  assumes "\<forall>p \<in> set ps. length p \<le> limit"
  shows "feed_all idle (concat (map wrap ps)) = (idle, ps)"
  using assms by (induction ps) (simp_all add: feed_none feed_split arrives)

lemma chunks_irrelevant: "feed_chunks feed_all r cs = feed_all r (concat cs)"
proof (induction cs arbitrary: r)
  case Nil
  then show ?case by (simp add: feed_none)
next
  case (Cons c cs)
  then show ?case by (simp add: feed_split split: prod.splits)
qed

lemma arrives_after:
  assumes "feed_all r noise = (idle, fs)" and "\<forall>p \<in> set ps. length p \<le> limit"
  shows "feed_all r (noise @ concat (map wrap ps)) = (idle, fs @ ps)"
  using assms by (simp add: feed_split batch_arrives)

end

interpretation serial_link: frame_link FrameReader_new feed_bytes frame_payload MAX_PACKET_SIZE
proof unfold_locales
  show "feed_bytes r [] = (r, [])" for r by simp
  show "feed_bytes r (xs @ ys) =
      (case feed_bytes r xs of (r', fs) \<Rightarrow> (case feed_bytes r' ys of (r'', gs) \<Rightarrow> (r'', fs @ gs)))"
    for r xs ys
    by (rule feed_bytes_append)
  show "feed_bytes FrameReader_new (frame_payload p) = (FrameReader_new, [p])"
    if "length p \<le> MAX_PACKET_SIZE" for p
    using feed_frame [OF new_is_idle that] .
qed

text \<open>Noise without a start byte leaves an idle reader as it is.\<close>

lemma noise_ignored:
  "START1 \<notin> set noise \<Longrightarrow> feed_bytes FrameReader_new (noise @ rest) = feed_bytes FrameReader_new rest"
  by (induction noise) (auto simp: feed_def FrameReader_new_def)

section \<open>Properties\<close>

text \<open>C11: every batch of payloads of at most 512 bytes, framed and written back to back and
  received in chunks of any sizes, is delivered completely, in order, and leaves the reader as new.\<close>

theorem framed_batch_delivered:
  assumes "\<forall>p \<in> set ps. length p \<le> MAX_PACKET_SIZE"
    and "concat chunks = concat (map frame_payload ps)"
  shows "feed_chunks feed_bytes FrameReader_new chunks = (FrameReader_new, ps)"
  using assms by (simp only: serial_link.chunks_irrelevant serial_link.batch_arrives)

theorem framed_batch_delivered_witness:
  "feed_chunks feed_bytes FrameReader_new [[0x94, 0xC3, 0], [2, 7], [9, 0x94, 0xC3, 0, 0]]
     = (FrameReader_new, [[7, 9], []])"
  by (rule framed_batch_delivered)
     (simp_all add: frame_payload_short START1_def START2_def MAX_PACKET_SIZE_def)

text \<open>C10: on every byte stream the state machine computes what the stream parser computes that sees
  all bytes at once, however the stream is cut into reads.\<close>

theorem reader_computes_reference:
  "snd (feed_chunks feed_bytes FrameReader_new chunks) = hunt (concat chunks)"
  by (simp add: serial_link.chunks_irrelevant FrameReader_new_def feed_bytes_reference)

text \<open>C34: from the initial reader, every state reached keeps the buffer empty between frames and
  shorter than the announced length of at most 512 bytes inside one, and no frame longer than 512
  bytes is ever returned.\<close>

theorem reader_bounded:
  "reader_ok (fst (feed_bytes FrameReader_new bs)) \<and>
   list_all (\<lambda>p. length p \<le> MAX_PACKET_SIZE) (snd (feed_bytes FrameReader_new bs)) \<and>
   length (buf (fst (feed_bytes FrameReader_new bs))) < MAX_PACKET_SIZE"
proof -
  let ?r = "fst (feed_bytes FrameReader_new bs)"
  have inv: "reader_ok ?r \<and> (\<forall>p \<in> set (snd (feed_bytes FrameReader_new bs)). length p \<le> MAX_PACKET_SIZE)"
    by (rule feed_bytes_ok [OF reader_ok_new]) simp
  then have "length (buf ?r) < MAX_PACKET_SIZE"
    by (auto simp: reader_ok_def MAX_PACKET_SIZE_def split: rstate.splits)
  with inv show ?thesis by (simp add: list_all_iff)
qed

text \<open>C33: whatever the reader is in the middle of, after 515 bytes without a start byte it is waiting for
  a frame, and the next frame of at most 512 bytes is received.\<close>

theorem reader_recovers:
  assumes "reader_ok r" and "START1 \<notin> set filler" and "515 \<le> length filler"
    and "length p \<le> MAX_PACKET_SIZE"
  shows "fst (feed_bytes r (filler @ frame_payload p)) = FrameReader_new \<and>
    last (snd (feed_bytes r (filler @ frame_payload p))) = p"
proof -
  obtain fs where "feed_bytes r filler = (FrameReader_new, fs)"
    using feed_bytes_resync [OF assms(1-3)] by (metis prod.collapse)
  from serial_link.arrives_after [OF this, of "[p]"] assms(4)
  have "feed_bytes r (filler @ frame_payload p) = (FrameReader_new, fs @ [p])" by simp
  then show ?thesis by simp
qed

theorem reader_recovers_witness:
  "let r = \<lparr>state = ReadPayload 512, buf = [1]\<rparr>; input = replicate 515 0 @ frame_payload [42]
   in fst (feed_bytes r input) = FrameReader_new \<and> last (snd (feed_bytes r input)) = [42]"
  unfolding Let_def
  by (rule reader_recovers) (simp_all add: reader_ok_def START1_def MAX_PACKET_SIZE_def)

text \<open>\<open>frame_payload\<close> does not check the length.  A payload of 513 to 65535 bytes is not
  delivered: the reader drops the header and hunts for frames inside the payload.\<close>

theorem oversize_frame_lost:
  assumes "MAX_PACKET_SIZE < length p" and "length p < 65536"
  shows "feed_bytes FrameReader_new (frame_payload p) = feed_bytes FrameReader_new p \<and>
    p \<notin> set (snd (feed_bytes FrameReader_new (frame_payload p)))"
proof -
  note same = feed_frame_oversize [OF assms]
  have "\<forall>q \<in> set (snd (feed_bytes FrameReader_new p)). length q \<le> MAX_PACKET_SIZE"
    using feed_bytes_ok [OF reader_ok_new, of p] by (metis prod.collapse)
  with assms(1) same show ?thesis by auto
qed

theorem oversize_frame_lost_witness:
  "let p = replicate 513 0 in feed_bytes FrameReader_new (frame_payload p) = feed_bytes FrameReader_new p \<and>
    p \<notin> set (snd (feed_bytes FrameReader_new (frame_payload p)))"
  unfolding Let_def by (rule oversize_frame_lost) (simp_all add: MAX_PACKET_SIZE_def)

end
