(* ===== verification/Crypto.thy ===== *)
theory Crypto
  imports Prelude
begin

text \<open>
  Model of \<open>src/crypto.rs\<close>: PSK expansion, the channel hash, AES-CTR as the radio firmware does it,
  channel names and \<open>ChannelKey\<close>.  The block cipher itself is the \<open>aes\<close> crate: the record \<open>aes_crate\<close>
  is a parameter of every definition that encrypts.  \<open>GenericArray<u8, U16>\<close> is the type \<open>block16\<close> of
  byte strings of length 16.
\<close>

section \<open>Keys and names\<close>

definition DEFAULT_PSK :: bytes where
  "DEFAULT_PSK = [0xd4, 0xf1, 0xbb, 0x3a, 0x20, 0x29, 0x07, 0x59,
                  0xf0, 0xbc, 0xff, 0xab, 0xcf, 0x4e, 0x69, 0x01]"

record channel_key =
  ck_index :: u32
  ck_name :: string
  ck_key :: bytes
  ck_hash :: u32

definition expand_psk :: "bytes \<Rightarrow> bytes" where
  "expand_psk psk =
     (if length psk = 0 then []
      else if length psk = 1 then DEFAULT_PSK[15 := psk ! 0]
      else psk)"

definition channel_hash :: "string \<Rightarrow> bytes \<Rightarrow> u32" where
  "channel_hash name key = ucast (foldl (XOR) (foldl (XOR) (0 :: u8) (as_bytes name)) key)"

definition modem_preset_name :: "i32 \<Rightarrow> string" where
  "modem_preset_name p =
     (if p = 0 then ''LongFast'' else if p = 1 then ''LongSlow''
      else if p = 3 then ''MediumSlow'' else if p = 4 then ''MediumFast''
      else if p = 5 then ''ShortSlow'' else if p = 6 then ''ShortFast''
      else if p = 7 then ''LongMod'' else if p = 8 then ''ShortTurbo''
      else if p = 9 then ''LongTurbo'' else if p = 10 then ''LiteFast''
      else if p = 11 then ''LiteSlow'' else if p = 12 then ''NarrowFast''
      else if p = 13 then ''NarrowSlow'' else ''Invalid'')"

definition channel_display_name :: "string \<Rightarrow> bool \<Rightarrow> i32 \<Rightarrow> string" where
  "channel_display_name name use_preset modem_preset =
     (if name \<noteq> [] then name
      else if use_preset then modem_preset_name modem_preset
      else ''Custom'')"

definition channel_key_from_proto :: "u32 \<Rightarrow> string \<Rightarrow> bytes \<Rightarrow> channel_key" where
  "channel_key_from_proto index name psk =
     (let key = expand_psk psk; hash = channel_hash name key in
      \<lparr>ck_index = index, ck_name = name, ck_key = key, ck_hash = hash\<rparr>)"

section \<open>AES-CTR\<close>

typedef block16 = "{bs :: bytes. length bs = 16}"
  morphisms block_bytes Block16
  by (rule exI [of _ "replicate 16 0"]) simp

setup_lifting type_definition_block16

lemma length_block_bytes [simp]: "length (block_bytes b) = 16"
  using block_bytes [of b] by simp

record aes_crate =
  aes128 :: "bytes \<Rightarrow> block16 \<Rightarrow> block16"
  aes256 :: "bytes \<Rightarrow> block16 \<Rightarrow> block16"

definition encrypt_block :: "aes_crate \<Rightarrow> bytes \<Rightarrow> block16 \<Rightarrow> block16" where
  "encrypt_block A key block =
     (if length key \<ge> 32 then aes256 A (take 32 key) block else aes128 A (take 16 key) block)"

definition to_le_bytes :: "u32 \<Rightarrow> bytes" where
  "to_le_bytes w = [ucast w, ucast (drop_bit 8 w), ucast (drop_bit 16 w), ucast (drop_bit 24 w)]"

lift_definition initial_counter :: "u32 \<Rightarrow> u32 \<Rightarrow> block16" is
  "\<lambda>from packet_id. to_le_bytes packet_id @ replicate 4 0 @ to_le_bytes from @ replicate 4 0"
  by (simp add: to_le_bytes_def)

fun inc_loop :: "nat \<Rightarrow> bytes \<Rightarrow> bytes" where
  "inc_loop 0 counter = counter"
| "inc_loop (Suc j) counter =
     (let counter' = counter[j := counter ! j + 1] in
      if counter' ! j \<noteq> 0 then counter' else inc_loop j counter')"

lemma length_inc_loop [simp]: "length (inc_loop j c) = length c"
  by (induction j arbitrary: c) (simp_all add: Let_def)

lift_definition inc_counter :: "block16 \<Rightarrow> block16" is "inc_loop 16"
  by simp

fun ctr_loop :: "(block16 \<Rightarrow> block16) \<Rightarrow> block16 \<Rightarrow> nat \<Rightarrow> block16 \<Rightarrow> bytes \<Rightarrow> bytes" where
  "ctr_loop enc counter keystream_pos keystream_block [] = []"
| "ctr_loop enc counter keystream_pos keystream_block (byte # data) =
     (let (counter', pos, block) =
        (if keystream_pos = 16 then (inc_counter counter, 0, enc counter)
         else (counter, keystream_pos, keystream_block))
      in (byte XOR block_bytes block ! pos) # ctr_loop enc counter' (pos + 1) block data)"

definition zero_block :: block16 where
  "zero_block = Block16 (replicate 16 0)"

definition aes_ctr_transform :: "aes_crate \<Rightarrow> bytes \<Rightarrow> u32 \<Rightarrow> u32 \<Rightarrow> bytes \<Rightarrow> bytes" where
  "aes_ctr_transform A key from packet_id data =
     (if length key < 16 then data
      else ctr_loop (encrypt_block A key) (initial_counter from packet_id) 16 zero_block data)"

definition encrypt_aes_ctr :: "aes_crate \<Rightarrow> bytes \<Rightarrow> u32 \<Rightarrow> u32 \<Rightarrow> bytes \<Rightarrow> bytes" where
  "encrypt_aes_ctr A key from packet_id plaintext = aes_ctr_transform A key from packet_id plaintext"

definition decrypt_aes_ctr :: "aes_crate \<Rightarrow> bytes \<Rightarrow> u32 \<Rightarrow> u32 \<Rightarrow> bytes \<Rightarrow> bytes" where
  "decrypt_aes_ctr A key from packet_id ciphertext = aes_ctr_transform A key from packet_id ciphertext"

section \<open>The keystream\<close>

text \<open>Byte \<open>i\<close> of the keystream of a packet, independent of the loop that produces it.\<close>

definition keystream_byte :: "aes_crate \<Rightarrow> bytes \<Rightarrow> u32 \<Rightarrow> u32 \<Rightarrow> nat \<Rightarrow> u8" where
  "keystream_byte A key from packet_id i =
     block_bytes (encrypt_block A key ((inc_counter ^^ (i div 16)) (initial_counter from packet_id)))
       ! (i mod 16)"

text \<open>
  \<open>at enc c0 i c pos ks\<close>: the loop variables after \<open>i\<close> bytes, started at counter \<open>c0\<close>.
\<close>

definition loop_at :: "(block16 \<Rightarrow> block16) \<Rightarrow> block16 \<Rightarrow> nat \<Rightarrow> block16 \<Rightarrow> nat \<Rightarrow> block16 \<Rightarrow> bool" where
  "loop_at enc c0 i c pos ks \<longleftrightarrow>
     (pos = 16 \<and> i mod 16 = 0 \<and> c = (inc_counter ^^ (i div 16)) c0) \<or>
     (pos = i mod 16 \<and> 0 < pos \<and> c = (inc_counter ^^ Suc (i div 16)) c0 \<and>
      ks = enc ((inc_counter ^^ (i div 16)) c0))"

lemma loop_at_next:
  assumes "loop_at enc c0 i c pos ks"
  shows "let (c', p, b) = (if pos = 16 then (inc_counter c, 0, enc c) else (c, pos, ks)) in
    b = enc ((inc_counter ^^ (i div 16)) c0) \<and> p = i mod 16 \<and> loop_at enc c0 (Suc i) c' (p + 1) b"
proof (cases "pos = 16")
  case True
  have "i mod 16 < 16" by simp
  with True have "pos \<noteq> i mod 16" by linarith
  with assms have i: "i mod 16 = 0" and c: "c = (inc_counter ^^ (i div 16)) c0"
    unfolding loop_at_def by blast+
  from i have "Suc i mod 16 = 1" and "Suc i div 16 = i div 16"
    by (simp_all add: mod_Suc div_Suc)
  with True i c show ?thesis by (simp add: loop_at_def)
next
  case False
  with assms have pos: "pos = i mod 16" "0 < pos" and c: "c = (inc_counter ^^ Suc (i div 16)) c0"
    and ks: "ks = enc ((inc_counter ^^ (i div 16)) c0)"
    unfolding loop_at_def by blast+
  show ?thesis
  proof (cases "i mod 16 = 15")
    case True
    then have "Suc i mod 16 = 0" and "Suc i div 16 = Suc (i div 16)"
      by (simp_all add: mod_Suc div_Suc)
    with True False pos c ks show ?thesis by (simp add: loop_at_def del: funpow.simps)
  next
    case middle: False
    then have "Suc i mod 16 = Suc (i mod 16)" and "Suc i div 16 = i div 16"
      by (simp_all add: mod_Suc div_Suc)
    with middle False pos c ks show ?thesis by (simp add: loop_at_def del: funpow.simps)
  qed
qed

lemma ctr_loop_at:
  assumes "loop_at enc c0 i c pos ks"
  shows "ctr_loop enc c pos ks data =
    map (\<lambda>j. data ! j XOR block_bytes (enc ((inc_counter ^^ ((i + j) div 16)) c0)) ! ((i + j) mod 16))
      [0..<length data]"
  using assms
proof (induction data arbitrary: i c pos ks)
  case Nil
  then show ?case by simp
next
  case (Cons x data)
  obtain c' p b where cpb: "(if pos = 16 then (inc_counter c, 0, enc c) else (c, pos, ks)) = (c', p, b)"
    by (metis prod_cases3)
  with loop_at_next [OF Cons.prems] have b: "b = enc ((inc_counter ^^ (i div 16)) c0)"
    and p: "p = i mod 16" and nxt: "loop_at enc c0 (Suc i) c' (p + 1) b"
    by (auto simp only: Let_def split_beta fst_conv snd_conv)
  have upt: "[0..<length (x # data)] = 0 # map Suc [0..<length data]"
    by (simp add: map_Suc_upt upt_conv_Cons del: upt_Suc)
  show ?case
    unfolding upt ctr_loop.simps cpb Let_def split
    using Cons.IH [OF nxt] b p by simp
qed

lemma ctr_transform_keystream:
  assumes "16 \<le> length key"
  shows "aes_ctr_transform A key from packet_id data =
    map (\<lambda>i. data ! i XOR keystream_byte A key from packet_id i) [0..<length data]"
proof -
  have "loop_at (encrypt_block A key) (initial_counter from packet_id) 0
          (initial_counter from packet_id) 16 zero_block"
    by (simp add: loop_at_def)
  from ctr_loop_at [OF this, of data] assms show ?thesis
    by (simp add: aes_ctr_transform_def keystream_byte_def)
qed

lemma length_ctr_transform [simp]: "length (aes_ctr_transform A key from packet_id data) = length data"
proof (cases "length key < 16")
  case True
  then show ?thesis by (simp add: aes_ctr_transform_def)
next
  case False
  then show ?thesis by (simp add: ctr_transform_keystream)
qed

lemma ctr_transform_involution:
  "aes_ctr_transform A key from packet_id (aes_ctr_transform A key from packet_id data) = data"
proof (cases "length key < 16")
  case True
  then show ?thesis by (simp add: aes_ctr_transform_def)
next
  case False
  then have "aes_ctr_transform A key from packet_id data ! i = data ! i XOR keystream_byte A key from packet_id i"
    if "i < length data" for i
    using that by (simp add: ctr_transform_keystream)
  moreover have "aes_ctr_transform A key from packet_id (aes_ctr_transform A key from packet_id data) ! i
      = aes_ctr_transform A key from packet_id data ! i XOR keystream_byte A key from packet_id i"
    if "i < length data" for i
    using that False by (subst ctr_transform_keystream) auto
  ultimately show ?thesis by (intro nth_equalityI) auto
qed

section \<open>The counter as a 128-bit big-endian number\<close>

definition be_val :: "bytes \<Rightarrow> nat" where
  "be_val bs = foldl (\<lambda>v b. 256 * v + unat b) 0 bs"

lemma be_val_simps [simp]:
  "be_val [] = 0"
  "be_val (bs @ [b]) = 256 * be_val bs + unat b"
  by (simp_all add: be_val_def)

lemma unat_byte_less: "unat (b :: u8) < 256"
  using unsigned_less [of b] by simp

lemma be_val_less: "be_val bs < 256 ^ length bs"
proof (induction bs rule: rev_induct)
  case Nil
  then show ?case by simp
next
  case (snoc b bs)
  with unat_byte_less [of b] show ?case by simp
qed

lemma be_val_inject: "length as = length bs \<Longrightarrow> be_val as = be_val bs \<Longrightarrow> as = bs"
proof (induction as arbitrary: bs rule: rev_induct)
  case Nil
  then show ?case by simp
next
  case (snoc a as)
  then obtain b bs' where bs: "bs = bs' @ [b]"
    by (metis length_0_conv rev_exhaust snoc_eq_iff_butlast)
  with snoc.prems(2) have eq: "256 * be_val as + unat a = 256 * be_val bs' + unat b" by simp
  from eq have "(256 * be_val as + unat a) div 256 = (256 * be_val bs' + unat b) div 256" by simp
  with unat_byte_less [of a] unat_byte_less [of b] have "be_val as = be_val bs'" by simp
  moreover from eq this have "a = b" by (simp add: word_unat_eq_iff)
  ultimately show ?case using snoc.IH snoc.prems(1) bs by simp
qed

lemma be_val_append: "be_val (as @ bs) = 256 ^ length bs * be_val as + be_val bs"
proof (induction bs rule: rev_induct)
  case Nil
  then show ?case by simp
next
  case (snoc b bs)
  have "be_val (as @ bs @ [b]) = 256 * be_val (as @ bs) + unat b"
    using be_val_simps(2) [of "as @ bs" b] by simp
  with snoc show ?case by (simp add: algebra_simps)
qed

lemma unat_inc_byte: "unat (b + 1 :: u8) = (unat b + 1) mod 256"
  by (simp add: unat_word_ariths)

lemma inc_byte_zero: "(b + 1 :: u8) = 0 \<longleftrightarrow> unat b = 255"
proof -
  have "(b + 1 = 0) = (unat (b + 1) = 0)" by (simp only: unsigned_eq_0_iff)
  also have "\<dots> = ((unat b + 1) mod 256 = 0)" by (simp only: unat_inc_byte)
  also have "\<dots> = (unat b = 255)"
    using unat_byte_less [of b] by (cases "unat b = 255") auto
  finally show ?thesis .
qed

lemma inc_loop_take:
  assumes "n \<le> length c"
  shows "drop n (inc_loop n c) = drop n c \<and>
    be_val (take n (inc_loop n c)) = (be_val (take n c) + 1) mod 256 ^ n"
  using assms
proof (induction n arbitrary: c)
  case 0
  then show ?case by simp
next
  case (Suc n)
  let ?c = "c[n := c ! n + 1]"
  have split: "take (Suc n) xs = take n xs @ [xs ! n]" if "n < length xs" for xs :: bytes
    using that by (rule take_Suc_conv_app_nth)
  show ?case
  proof (cases "c ! n + 1 = 0")
    case False
    have "unat (c ! n) + 1 < 256"
      using False inc_byte_zero [of "c ! n"] unat_byte_less [of "c ! n"] by linarith
    then have "unat (c ! n + 1) = unat (c ! n) + 1" by (simp only: unat_inc_byte mod_less)
    then have "be_val (take (Suc n) ?c) = be_val (take (Suc n) c) + 1"
      using Suc.prems by (simp add: split)
    moreover have "be_val (take (Suc n) ?c) < 256 ^ Suc n"
      using be_val_less [of "take (Suc n) ?c"] Suc.prems by (simp del: power_Suc)
    ultimately show ?thesis
      using False Suc.prems by (simp add: Let_def del: power_Suc)
  next
    case True
    then have b: "unat (c ! n) = 255" by (simp only: inc_byte_zero)
    let ?r = "inc_loop n ?c"
    from Suc.IH [of ?c] Suc.prems have upper: "drop n ?r = drop n ?c"
      and lower: "be_val (take n ?r) = (be_val (take n c) + 1) mod 256 ^ n"
      by simp_all
    have "drop (Suc n) ?r = drop 1 (drop n ?r)" by simp
    also have "\<dots> = drop (Suc n) c" using upper by simp
    finally have rest: "drop (Suc n) ?r = drop (Suc n) c" .
    have "?r ! n = drop n ?r ! 0" using Suc.prems by simp
    also have "\<dots> = drop n ?c ! 0" by (simp only: upper)
    also have "\<dots> = 0" using True Suc.prems by simp
    finally have "?r ! n = 0" .
    then have "be_val (take (Suc n) ?r) = 256 * ((be_val (take n c) + 1) mod 256 ^ n)"
      using Suc.prems lower by (simp add: split)
    also have "\<dots> = (256 * (be_val (take n c) + 1)) mod 256 ^ Suc n"
      by (simp add: mult_mod_right)
    also have "256 * (be_val (take n c) + 1) = be_val (take (Suc n) c) + 1"
      using Suc.prems b by (simp add: split)
    finally show ?thesis
      using True Suc.prems rest by (simp add: Let_def del: power_Suc)
  qed
qed

lemma inc_counter_value: "be_val (block_bytes (inc_counter c)) = (be_val (block_bytes c) + 1) mod 2 ^ 128"
proof -
  have "(256 :: nat) ^ 16 = 2 ^ 128" by simp
  with inc_loop_take [of 16 "block_bytes c"] show ?thesis
    by (simp add: inc_counter.rep_eq)
qed

lemma inc_counter_iterated:
  "be_val (block_bytes ((inc_counter ^^ n) c)) = (be_val (block_bytes c) + n) mod 2 ^ 128"
proof (induction n)
  case 0
  then show ?case using be_val_less [of "block_bytes c"] by simp
next
  case (Suc n)
  then show ?case by (simp add: inc_counter_value mod_simps)
qed

lemma to_le_bytes_inject: "to_le_bytes v = to_le_bytes w \<Longrightarrow> v = w"
proof -
  assume eq: "to_le_bytes v = to_le_bytes w"
  have byte: "bit v (8 * k + i) = bit w (8 * k + i)" if "k < 4" "i < 8" for k i
  proof -
    have "(ucast (drop_bit (8 * k) v) :: u8) = ucast (drop_bit (8 * k) w)"
    proof -
      from \<open>k < 4\<close> consider "k = 0" | "k = 1" | "k = 2" | "k = 3" by linarith
      then show ?thesis using eq by cases (simp_all add: to_le_bytes_def)
    qed
    then have "bit (ucast (drop_bit (8 * k) v) :: u8) i = bit (ucast (drop_bit (8 * k) w) :: u8) i" by simp
    with \<open>i < 8\<close> show ?thesis by (simp add: bit_ucast_iff bit_drop_bit_eq)
  qed
  show "v = w"
  proof (rule bit_word_eqI)
    fix n assume "n < LENGTH(32)"
    then have "n div 8 < 4" and "n mod 8 < 8" by auto
    from byte [OF this] show "bit v n = bit w n" by simp
  qed
qed

text \<open>
  The upper twelve bytes of an initial counter hold the packet id and the sender, the lower four are zero.
\<close>

definition nonce_bytes :: "u32 \<Rightarrow> u32 \<Rightarrow> bytes" where
  "nonce_bytes from packet_id = to_le_bytes packet_id @ replicate 4 0 @ to_le_bytes from"

lemma initial_counter_value:
  "be_val (block_bytes (initial_counter from packet_id)) = 2 ^ 32 * be_val (nonce_bytes from packet_id)"
proof -
  have "be_val (replicate 4 (0 :: u8)) = 0"
    by (simp add: be_val_def numeral_eq_Suc)
  then show ?thesis
    using be_val_append [of "nonce_bytes from packet_id" "replicate 4 0"]
    by (simp add: initial_counter.rep_eq nonce_bytes_def)
qed

lemma nonce_bytes_inject:
  "be_val (nonce_bytes f i) = be_val (nonce_bytes f' i') \<longleftrightarrow> f = f' \<and> i = i'"
proof
  assume "be_val (nonce_bytes f i) = be_val (nonce_bytes f' i')"
  then have "nonce_bytes f i = nonce_bytes f' i'"
    by (intro be_val_inject) (simp_all add: nonce_bytes_def to_le_bytes_def)
  then have "to_le_bytes i = to_le_bytes i'" and "to_le_bytes f = to_le_bytes f'"
    by (auto simp: nonce_bytes_def to_le_bytes_def)
  then show "f = f' \<and> i = i'" by (simp add: to_le_bytes_inject)
qed simp

lemma packet_counter_value:
  assumes "n < 2 ^ 32"
  shows "be_val (block_bytes ((inc_counter ^^ n) (initial_counter from packet_id)))
    = 2 ^ 32 * be_val (nonce_bytes from packet_id) + n"
proof -
  have "be_val (nonce_bytes from packet_id) < 256 ^ 12"
    using be_val_less [of "nonce_bytes from packet_id"] by (simp add: nonce_bytes_def to_le_bytes_def)
  with assms have "2 ^ 32 * be_val (nonce_bytes from packet_id) + n < 2 ^ 128" by simp
  then show ?thesis by (simp only: inc_counter_iterated initial_counter_value mod_less)
qed

section \<open>The cipher interface\<close>

text \<open>What the bridge relies on: decryption undoes encryption and the length is kept.\<close>

locale cipher_pair =
  fixes enc dec :: "'k \<Rightarrow> u32 \<Rightarrow> u32 \<Rightarrow> bytes \<Rightarrow> bytes"
  assumes dec_enc: "dec k from packet_id (enc k from packet_id data) = data"
    and enc_dec: "enc k from packet_id (dec k from packet_id data) = data"
    and length_enc: "length (enc k from packet_id data) = length data"
begin

lemma enc_inject: "enc k from packet_id d = enc k from packet_id d' \<longleftrightarrow> d = d'"
  by (metis dec_enc)

lemma length_dec: "length (dec k from packet_id data) = length data"
  by (metis enc_dec length_enc)

lemma enc_eq_iff: "enc k from packet_id d = c \<longleftrightarrow> d = dec k from packet_id c"
  by (metis dec_enc enc_dec)

end

interpretation aes_ctr: cipher_pair "encrypt_aes_ctr A" "decrypt_aes_ctr A" for A
  by unfold_locales (simp_all add: encrypt_aes_ctr_def decrypt_aes_ctr_def ctr_transform_involution)

section \<open>Channel keys\<close>

lemma channel_hash_eq: "channel_hash name key = ucast (xor_all (as_bytes name) XOR xor_all key)"
  by (simp add: channel_hash_def foldl_xor flip: xor_all_def)

lemma unat_ucast_byte: "unat (ucast (b :: u8) :: u32) = unat b"
proof -
  have "unat b < 2 ^ 32" using unat_byte_less [of b] by simp
  then show ?thesis by (simp add: unsigned_ucast_eq take_bit_nat_eq_self)
qed

lemma channel_hash_less: "unat (channel_hash name key) < 256"
  by (simp only: channel_hash_eq unat_ucast_byte unat_byte_less)

lemma ucast_byte_inject: "(ucast a :: u32) = ucast b \<longleftrightarrow> a = (b :: u8)"
  by (metis unat_ucast_byte word_unat_eq_iff)

lemma xor_left_cancel: "a XOR b = a XOR c \<longleftrightarrow> b = (c :: 'a::len word)"
  by (metis xor.assoc xor.left_neutral xor_self_eq)

lemma expand_psk_one_byte: "expand_psk [a] = butlast DEFAULT_PSK @ [a]"
  by (simp add: expand_psk_def DEFAULT_PSK_def numeral_eq_Suc)

lemma xor_all_one_byte_psk: "xor_all (expand_psk [a]) = 3 XOR a"
proof -
  have "xor_all (butlast DEFAULT_PSK) = 3" by (simp add: DEFAULT_PSK_def)
  then show ?thesis by (simp add: expand_psk_one_byte)
qed

definition key_ok :: "channel_key \<Rightarrow> bool" where
  "key_ok ck \<longleftrightarrow> ck_hash ck = channel_hash (ck_name ck) (ck_key ck)"

lemma channel_key_from_proto_simps [simp]:
  "ck_index (channel_key_from_proto i n p) = i"
  "ck_name (channel_key_from_proto i n p) = n"
  "ck_key (channel_key_from_proto i n p) = expand_psk p"
  "ck_hash (channel_key_from_proto i n p) = channel_hash n (expand_psk p)"
  by (simp_all add: channel_key_from_proto_def Let_def)

lemma key_ok_from_proto [simp]: "key_ok (channel_key_from_proto i n p)"
  by (simp add: key_ok_def)

section \<open>Properties\<close>

text \<open>For every key, sender, packet id and data, decryption undoes encryption, encryption undoes
  decryption, and the ciphertext is as long as the plaintext.\<close>

theorem encryption_roundtrip:
  "decrypt_aes_ctr A key from packet_id (encrypt_aes_ctr A key from packet_id data) = data \<and>
   encrypt_aes_ctr A key from packet_id (decrypt_aes_ctr A key from packet_id data) = data \<and>
   length (encrypt_aes_ctr A key from packet_id data) = length data"
  by (simp add: aes_ctr.dec_enc aes_ctr.enc_dec aes_ctr.length_enc)

text \<open>C13: the loop with its running counter, position and cached block computes CTR mode: byte \<open>i\<close> of
  the output is byte \<open>i\<close> of the data XOR byte \<open>i mod 16\<close> of the encryption of the initial counter
  advanced \<open>i div 16\<close> times.  Keys shorter than 16 bytes leave the data unchanged.\<close>

theorem ctr_loop_is_ctr_mode:
  "aes_ctr_transform A key from packet_id data =
     (if length key < 16 then data
      else map (\<lambda>i. data ! i XOR keystream_byte A key from packet_id i) [0..<length data])"
proof (cases "length key < 16")
  case True
  then show ?thesis by (simp add: aes_ctr_transform_def)
next
  case False
  then show ?thesis by (simp add: ctr_transform_keystream)
qed

text \<open>The byte-wise carry loop adds one to the counter read as a 128-bit big-endian number,
  wrapping at \<open>2 ^ 128\<close>.\<close>

theorem counter_increment_is_add_one:
  "be_val (block_bytes (inc_counter c)) = (be_val (block_bytes c) + 1) mod 2 ^ 128"
  by (rule inc_counter_value)

text \<open>C23: within the first \<open>2 ^ 32\<close> blocks (64 GiB) of each packet, no counter block is used
  twice: not within a packet, and not in two packets that differ in the sender or the id.\<close>

theorem counter_blocks_never_repeat:
  assumes "n < 2 ^ 32" and "n' < 2 ^ 32"
  shows "(inc_counter ^^ n) (initial_counter from packet_id) = (inc_counter ^^ n') (initial_counter from' packet_id')
    \<longleftrightarrow> n = n' \<and> from = from' \<and> packet_id = packet_id'"
    (is "?l = ?r")
proof
  assume ?l
  then have eq: "2 ^ 32 * be_val (nonce_bytes from packet_id) + n = 2 ^ 32 * be_val (nonce_bytes from' packet_id') + n'"
    using packet_counter_value [OF assms(1)] packet_counter_value [OF assms(2)] by metis
  then have "(2 ^ 32 * be_val (nonce_bytes from packet_id) + n) div 2 ^ 32
      = (2 ^ 32 * be_val (nonce_bytes from' packet_id') + n') div 2 ^ 32" by (rule arg_cong)
  with assms have "be_val (nonce_bytes from packet_id) = be_val (nonce_bytes from' packet_id')" by simp
  with eq show ?r by (simp add: nonce_bytes_inject)
qed simp

theorem counter_blocks_never_repeat_witness:
  "(inc_counter ^^ 3) (initial_counter 1 7) \<noteq> (inc_counter ^^ 5) (initial_counter 1 7) \<and>
   (inc_counter ^^ 3) (initial_counter 1 7) \<noteq> (inc_counter ^^ 3) (initial_counter 2 7)"
  using counter_blocks_never_repeat [of 3 5 1 7 1 7] counter_blocks_never_repeat [of 3 3 1 7 2 7] by simp

text \<open>The channel hash fits in one byte, one-byte PSKs on the same name get different hashes
  exactly when they differ, and the default LongFast channel has the hash 8.\<close>

theorem channel_hash_one_byte_psk:
  "unat (channel_hash name key) < 256 \<and>
   (channel_hash name (expand_psk [a]) = channel_hash name (expand_psk [b]) \<longleftrightarrow> a = b) \<and>
   channel_hash ''LongFast'' (expand_psk [1]) = 8"
proof (intro conjI)
  show "channel_hash name (expand_psk [a]) = channel_hash name (expand_psk [b]) \<longleftrightarrow> a = b"
    by (simp add: channel_hash_eq ucast_byte_inject xor_left_cancel xor_all_one_byte_psk)
  show "channel_hash ''LongFast'' (expand_psk [1]) = 8"
    by (simp add: channel_hash_eq xor_all_one_byte_psk)
qed (rule channel_hash_less)

end
