(* ===== verification/Recent.thy ===== *)
theory Recent
  imports Prelude
begin

text \<open>
  Model of \<open>RecentPackets\<close> in \<open>src/bridge.rs\<close>: the bounded memory of (sender, packet id) pairs that
  suppresses duplicates, and the interface through which the bridge uses it.
\<close>

type_synonym packet_key = "u32 \<times> u32"

record recent_packets =
  order :: "packet_key list"
  seen :: "packet_key set"
  capacity :: nat

definition RecentPackets_new :: "nat \<Rightarrow> recent_packets" where
  "RecentPackets_new cap = \<lparr>order = [], seen = {}, capacity = cap\<rparr>"

definition recent_contains :: "recent_packets \<Rightarrow> u32 \<Rightarrow> u32 \<Rightarrow> bool" where
  "recent_contains r from packet_id = ((from, packet_id) \<in> seen r)"

definition recent_insert :: "recent_packets \<Rightarrow> u32 \<Rightarrow> u32 \<Rightarrow> recent_packets \<times> bool" where
  "recent_insert r from packet_id =
     (if (from, packet_id) \<in> seen r then (r, False)
      else
        let seen1 = insert (from, packet_id) (seen r);
            (order2, seen2) =
              (if length (order r) \<ge> capacity r
               then (case order r of
                       [] \<Rightarrow> ([], seen1)
                     | old # rest \<Rightarrow> (rest, seen1 - {old}))
               else (order r, seen1))
        in (r\<lparr>order := order2 @ [(from, packet_id)], seen := seen2\<rparr>, True))"

section \<open>Invariant\<close>

text \<open>
  The set and the queue hold the same pairs, each once, and there are at most \<open>capacity\<close> of them (a
  capacity of zero still keeps the newest pair).
\<close>

definition window_size :: "recent_packets \<Rightarrow> nat" where
  "window_size r = max 1 (capacity r)"

definition recent_ok :: "recent_packets \<Rightarrow> bool" where
  "recent_ok r \<longleftrightarrow> seen r = set (order r) \<and> distinct (order r) \<and> length (order r) \<le> window_size r"

lemma recent_ok_new [simp]: "recent_ok (RecentPackets_new cap)"
  by (simp add: recent_ok_def RecentPackets_new_def)

lemma recent_insert_reject:
  "recent_ok r \<Longrightarrow> k \<in> set (order r) \<Longrightarrow> recent_insert r (fst k) (snd k) = (r, False)"
  by (simp add: recent_insert_def recent_ok_def)

lemma recent_insert_accept:
  assumes "recent_ok r" and "k \<notin> set (order r)"
  obtains r' where "recent_insert r (fst k) (snd k) = (r', True)" and "recent_ok r'"
    and "order r' = (if length (order r) < window_size r then order r else tl (order r)) @ [k]"
    and "window_size r' = window_size r" and "capacity r' = capacity r"
proof -
  let ?r' = "fst (recent_insert r (fst k) (snd k))"
  from assms have inv: "seen r = set (order r)" "distinct (order r)" "length (order r) \<le> window_size r"
    and new: "k \<notin> set (order r)"
    by (auto simp: recent_ok_def)
  consider (room) "length (order r) < capacity r"
    | (zero) "capacity r \<le> length (order r)" "order r = []"
    | (full) old rest where "capacity r \<le> length (order r)" "order r = old # rest"
    by (cases "order r") (fastforce simp: not_less [symmetric])+
  then have "recent_insert r (fst k) (snd k) = (?r', True) \<and> recent_ok ?r' \<and>
      order ?r' = (if length (order r) < window_size r then order r else tl (order r)) @ [k] \<and>
      window_size ?r' = window_size r \<and> capacity ?r' = capacity r"
  proof cases
    case room
    with inv new show ?thesis by (simp add: recent_insert_def recent_ok_def window_size_def)
  next
    case zero
    with inv new show ?thesis by (simp add: recent_insert_def recent_ok_def window_size_def)
  next
    case (full old rest)
    then have "window_size r = Suc (length rest)"
      using inv(3) by (simp add: window_size_def)
    with full inv new show ?thesis
      by (auto simp add: recent_insert_def recent_ok_def window_size_def)
  qed
  with that show ?thesis by blast
qed

section \<open>The interface\<close>

text \<open>
  A sliding window of keys: a key in the window is refused and changes nothing; another key is taken
  in, at the expense of the oldest one when the window is full.
\<close>

locale dedup_window =
  fixes insert_key :: "'s \<Rightarrow> 'k \<Rightarrow> 's \<times> bool"
    and window :: "'s \<Rightarrow> 'k list"
    and limit :: "'s \<Rightarrow> nat"
    and ok :: "'s \<Rightarrow> bool"
  assumes refuse: "ok s \<Longrightarrow> k \<in> set (window s) \<Longrightarrow> insert_key s k = (s, False)"
    and take_in: "ok s \<Longrightarrow> k \<notin> set (window s) \<Longrightarrow> insert_key s k = (s', b) \<Longrightarrow>
      b \<and> ok s' \<and> limit s' = limit s \<and>
      window s' = (if length (window s) < limit s then window s else tl (window s)) @ [k]"
    and bounded: "ok s \<Longrightarrow> length (window s) \<le> limit s"
    and nonempty: "ok s \<Longrightarrow> 0 < limit s"
begin

abbreviation insert_all :: "'s \<Rightarrow> 'k list \<Rightarrow> 's" where
  "insert_all s ks \<equiv> foldl (\<lambda>s k. fst (insert_key s k)) s ks"

lemma accepted_iff: "ok s \<Longrightarrow> snd (insert_key s k) \<longleftrightarrow> k \<notin> set (window s)"
  by (metis prod.collapse refuse snd_conv take_in)

lemma insert_ok: "ok s \<Longrightarrow> ok (fst (insert_key s k)) \<and> limit (fst (insert_key s k)) = limit s"
  by (metis fst_conv prod.collapse refuse take_in)

lemma inserted_present: "ok s \<Longrightarrow> k \<in> set (window (fst (insert_key s k)))"
  by (metis fst_conv in_set_conv_decomp prod.collapse refuse take_in)

lemma window_subset: "ok s \<Longrightarrow> set (window (fst (insert_key s k))) \<subseteq> insert k (set (window s))"
proof (cases "k \<in> set (window s)")
  case False
  assume "ok s"
  obtain s' b where i: "insert_key s k = (s', b)" by fastforce
  from take_in [OF \<open>ok s\<close> False i] i show ?thesis by (cases "window s") auto
qed (auto simp: refuse)

lemma insert_with_room:
  assumes "ok s" and "length (window s) < limit s"
  shows "set (window (fst (insert_key s k))) = insert k (set (window s)) \<and>
    length (window (fst (insert_key s k))) \<le> Suc (length (window s))"
proof (cases "k \<in> set (window s)")
  case True
  then show ?thesis using assms(1) by (auto simp: refuse)
next
  case False
  obtain s' b where i: "insert_key s k = (s', b)" by fastforce
  from take_in [OF assms(1) False i] assms(2) i show ?thesis by simp
qed

lemma insert_all_ok: "ok s \<Longrightarrow> ok (insert_all s ks) \<and> limit (insert_all s ks) = limit s"
  by (induction ks arbitrary: s) (auto simp: insert_ok)

text \<open>\<open>young s n k\<close>: fewer than \<open>n\<close> keys are newer than \<open>k\<close>.\<close>

definition young :: "'s \<Rightarrow> nat \<Rightarrow> 'k \<Rightarrow> bool" where
  "young s n k \<longleftrightarrow> (\<exists>older newer. window s = older @ k # newer \<and> length newer < n)"

lemma young_insert:
  assumes "ok s" and "young s n k" and "n < limit s"
  shows "young (fst (insert_key s x)) (Suc n) k"
proof (cases "x \<in> set (window s)")
  case True
  with assms show ?thesis by (auto simp: refuse young_def less_Suc_eq)
next
  case False
  obtain older newer where w: "window s = older @ k # newer" "length newer < n"
    using assms(2) by (auto simp: young_def)
  obtain s' b where i: "insert_key s x = (s', b)" by fastforce
  with take_in [OF assms(1) False i]
  have w': "window s' = (if length (window s) < limit s then window s else tl (window s)) @ [x]" by simp
  show ?thesis
  proof (cases "length (window s) < limit s")
    case True
    with w w' have "window s' = older @ k # (newer @ [x])" by simp
    moreover have "length (newer @ [x]) < Suc n" using w(2) by simp
    ultimately show ?thesis unfolding young_def i fst_conv by blast
  next
    case False
    with w assms(3) have "older \<noteq> []" by auto
    with w w' False have "window s' = tl older @ k # (newer @ [x])" by simp
    moreover have "length (newer @ [x]) < Suc n" using w(2) by simp
    ultimately show ?thesis unfolding young_def i fst_conv by blast
  qed
qed

lemma young_insert_all:
  "ok s \<Longrightarrow> young s n k \<Longrightarrow> n + length ks \<le> limit s \<Longrightarrow> k \<in> set (window (insert_all s ks))"
proof (induction ks arbitrary: s n)
  case Nil
  then show ?case by (auto simp: young_def)
next
  case (Cons x ks)
  have "n < limit s" using Cons.prems(3) by simp
  from young_insert [OF Cons.prems(1,2) this] show ?case
    using Cons.IH [of "fst (insert_key s x)" "Suc n"] Cons.prems insert_ok [OF Cons.prems(1)] by simp
qed

lemma retained:
  assumes "ok s" and "snd (insert_key s k)" and "length ks < limit s"
  shows "k \<in> set (window (insert_all (fst (insert_key s k)) ks))"
proof (rule young_insert_all [where n = 1])
  obtain s' where i: "insert_key s k = (s', True)" using assms(2) by (metis prod.collapse)
  with assms have "k \<notin> set (window s)" by (simp add: accepted_iff [symmetric])
  from take_in [OF assms(1) this i] i show "young (fst (insert_key s k)) 1 k"
    by (auto simp: young_def)
  show "ok (fst (insert_key s k))" and "1 + length ks \<le> limit (fst (insert_key s k))"
    using insert_ok [OF assms(1)] assms(3) by simp_all
qed

end

interpretation recent_window: dedup_window "\<lambda>r k. recent_insert r (fst k) (snd k)" order window_size recent_ok
proof unfold_locales
  fix r :: recent_packets and k :: packet_key
  assume ok: "recent_ok r"
  show "length (order r) \<le> window_size r" and "0 < window_size r"
    using ok by (simp_all add: recent_ok_def window_size_def)
  show "recent_insert r (fst k) (snd k) = (r, False)" if "k \<in> set (order r)"
    using ok that by (rule recent_insert_reject)
  fix r' b
  assume new: "k \<notin> set (order r)" and ins: "recent_insert r (fst k) (snd k) = (r', b)"
  from recent_insert_accept [OF ok new] ins
  show "b \<and> recent_ok r' \<and> window_size r' = window_size r \<and>
      order r' = (if length (order r) < window_size r then order r else tl (order r)) @ [k]"
    by (metis prod.inject)
qed

lemma recent_insert_ok: "recent_ok r \<Longrightarrow> recent_ok (fst (recent_insert r f i))"
  using recent_window.insert_ok [of r "(f, i)"] by simp

lemma recent_insert_capacity [simp]: "capacity (fst (recent_insert r f i)) = capacity r"
  by (auto simp: recent_insert_def Let_def split: prod.splits)

lemma recent_insert_iff: "recent_ok r \<Longrightarrow> snd (recent_insert r f i) \<longleftrightarrow> (f, i) \<notin> set (order r)"
  using recent_window.accepted_iff [of r "(f, i)"] by simp

section \<open>Specification: a sliding window over the accepted packets\<close>

definition last_n :: "nat \<Rightarrow> 'a list \<Rightarrow> 'a list" where
  "last_n n xs = drop (length xs - n) xs"

lemma length_last_n [simp]: "length (last_n n xs) = min n (length xs)"
  by (simp add: last_n_def)

lemma last_n_snoc:
  assumes "0 < n"
  shows "last_n n (xs @ [x]) = (if length (last_n n xs) < n then last_n n xs else tl (last_n n xs)) @ [x]"
proof (cases "length xs < n")
  case True
  then show ?thesis by (simp add: last_n_def)
next
  case False
  with assms have "Suc (length xs) - n = Suc (length xs - n)" by simp
  with False assms show ?thesis by (simp add: last_n_def drop_Suc tl_drop)
qed

text \<open>
  The specification keeps the whole history of accepted packets; a packet is a duplicate if it is among
  the last \<open>n\<close> of them.
\<close>

fun dedup_spec :: "nat \<Rightarrow> packet_key list \<Rightarrow> packet_key list \<Rightarrow> packet_key list \<times> bool list" where
  "dedup_spec n history [] = (history, [])"
| "dedup_spec n history (k # ks) =
     (let fresh = (k \<notin> set (last_n n history));
          (history', answers) = dedup_spec n (if fresh then history @ [k] else history) ks
      in (history', fresh # answers))"

fun insert_run :: "recent_packets \<Rightarrow> packet_key list \<Rightarrow> recent_packets \<times> bool list" where
  "insert_run r [] = (r, [])"
| "insert_run r (k # ks) =
     (let (r', fresh) = recent_insert r (fst k) (snd k); (r'', answers) = insert_run r' ks
      in (r'', fresh # answers))"

lemma insert_run_simulates:
  assumes "recent_ok r" and "order r = last_n (window_size r) history"
  shows "case dedup_spec (window_size r) history ks of (history', answers) \<Rightarrow>
    \<exists>r'. insert_run r ks = (r', answers) \<and> order r' = last_n (window_size r) history'"
  using assms
proof (induction ks arbitrary: r history)
  case Nil
  then show ?case by simp
next
  case (Cons k ks)
  obtain f i where k: "k = (f, i)" by fastforce
  show ?case
  proof (cases "k \<in> set (order r)")
    case True
    with Cons.prems k have "recent_insert r f i = (r, False)"
      using recent_insert_reject [of r k] by simp
    with Cons.IH [OF Cons.prems] True Cons.prems(2) k show ?thesis
      by (auto simp: Let_def split: prod.splits)
  next
    case False
    obtain r' where ins: "recent_insert r f i = (r', True)" and ok: "recent_ok r'"
      and order: "order r' = (if length (order r) < window_size r then order r else tl (order r)) @ [k]"
      and win: "window_size r' = window_size r"
      using recent_insert_accept [OF Cons.prems(1) False] k by auto
    have "0 < window_size r" by (simp add: window_size_def)
    then have "order r' = last_n (window_size r') (history @ [k])"
      by (simp only: last_n_snoc win order Cons.prems(2))
    from Cons.IH [OF ok this] False Cons.prems(2) ins win k show ?thesis
      by (auto simp: Let_def split: prod.splits)
  qed
qed

section \<open>Properties\<close>

text \<open>C12: the queue and set of \<open>RecentPackets\<close> refine the sliding-window specification: from an empty
  memory, every sequence of insertions gets the specification's answers, and the queue holds the last
  \<open>max 1 capacity\<close> accepted packets, oldest first.\<close>

theorem recent_packets_refine_window:
  "snd (insert_run (RecentPackets_new cap) ks) = snd (dedup_spec (max 1 cap) [] ks) \<and>
   order (fst (insert_run (RecentPackets_new cap) ks)) = last_n (max 1 cap) (fst (dedup_spec (max 1 cap) [] ks))"
  using insert_run_simulates [OF recent_ok_new, of cap "[]" ks]
  by (auto simp: window_size_def RecentPackets_new_def last_n_def split: prod.splits)

text \<open>An accepted packet stays a duplicate for at least \<open>capacity - 1\<close> further insertions,
  whatever they are.\<close>

theorem accepted_packet_stays_duplicate:
  assumes "recent_ok r" and "snd (recent_insert r f i)" and "length ks < window_size r"
  shows "\<not> snd (recent_insert (fst (insert_run (fst (recent_insert r f i)) ks)) f i)"
proof -
  have run: "fst (insert_run s ks) = recent_window.insert_all s ks" for s
    by (induction ks arbitrary: s) (simp_all add: Let_def split_beta)
  let ?s = "recent_window.insert_all (fst (recent_insert r f i)) ks"
  have "(f, i) \<in> set (order ?s)"
    using recent_window.retained [OF assms(1), of "(f, i)" ks] assms(2,3) by simp
  moreover have "recent_ok ?s"
    using recent_window.insert_all_ok [OF recent_insert_ok [OF assms(1)]] by simp
  ultimately show ?thesis by (simp add: run recent_insert_iff)
qed

theorem accepted_packet_stays_duplicate_witness:
  "\<not> snd (recent_insert (fst (insert_run (fst (recent_insert (RecentPackets_new 4) 1 42)) [(1, 43), (2, 42), (1, 43)])) 1 42)"
  by (rule accepted_packet_stays_duplicate, rule recent_ok_new)
     (simp_all add: recent_insert_def RecentPackets_new_def window_size_def)

end
