(* ===== verification/Proto.thy ===== *)
theory Proto
  imports Prelude
begin

text \<open>
  The protobuf messages the program exchanges.  Their Rust types and codecs are generated at build time
  from the \<open>meshtastic-protobufs\<close> submodule by \<open>prost\<close>, so neither is under \<open>src/\<close>.  A message is
  modelled by the fields the source names; everything else in it is one value of the type parameter
  \<open>'x\<close>, which no operation inspects.  The codecs, the numbers of the enum values the source mentions,
  and the default of the remaining fields are the record \<open>'x proto\<close>, a parameter of every definition
  that uses them.  Fields left to \<open>..Default::default()\<close> are zero, empty, \<open>false\<close> or absent, as protobuf
  defines.
\<close>

section \<open>Mesh packets\<close>

record 'x data_msg =
  d_portnum :: i32
  d_payload :: bytes
  d_want_response :: bool
  d_rest :: 'x

datatype 'x packet_payload = Decoded "'x data_msg" | Encrypted bytes

record 'x mesh_packet =
  mp_from :: u32
  mp_to :: u32
  mp_channel :: u32
  mp_id :: u32
  mp_payload_variant :: "'x packet_payload option"
  mp_pki_encrypted :: bool
  mp_transport_mechanism :: i32
  mp_rest :: 'x

section \<open>Channels and configuration\<close>

record 'x channel_settings =
  cs_name :: string
  cs_psk :: bytes
  cs_downlink_enabled :: bool
  cs_rest :: 'x

record 'x channel =
  ch_index :: i32
  ch_role :: i32
  ch_settings :: "'x channel_settings option"

record 'x mqtt_config =
  mq_enabled :: bool
  mq_proxy_to_client_enabled :: bool
  mq_address :: string
  mq_rest :: 'x

record 'x lora_config =
  lo_modem_preset :: i32
  lo_use_preset :: bool
  lo_region :: i32
  lo_rest :: 'x

datatype 'x config_variant = Lora "'x lora_config" | Config_other 'x

datatype 'x module_variant = Mqtt "'x mqtt_config" | Module_other 'x

section \<open>Radio to host and host to radio\<close>

datatype 'x from_radio_variant =
    From_packet "'x mesh_packet"
  | From_my_info u32 'x
  | From_config "'x config_variant option"
  | From_module_config "'x module_variant option"
  | From_channel "'x channel"
  | From_config_complete_id u32
  | From_rebooted bool
  | From_other 'x

record 'x from_radio =
  fr_id :: u32
  fr_payload_variant :: "'x from_radio_variant option"

datatype 'x proxy_payload = Proxy_data bytes | Proxy_other 'x

record 'x proxy_message =
  pm_topic :: string
  pm_retained :: bool
  pm_payload_variant :: "'x proxy_payload option"

datatype 'x to_radio =
    To_packet "'x mesh_packet"
  | To_want_config_id u32
  | To_heartbeat u32
  | To_mqtt_proxy "'x proxy_message"
  | To_other 'x

record 'x service_envelope =
  se_packet :: "'x mesh_packet option"
  se_channel_id :: string
  se_gateway_id :: string

datatype 'x admin_variant =
    Set_channel "'x channel"
  | Set_module_config "'x module_variant option"
  | Admin_other 'x

record 'x admin_message =
  am_session_passkey :: bytes
  am_payload_variant :: "'x admin_variant option"

section \<open>The generated code as a parameter\<close>

text \<open>Every decoder returns \<open>None\<close> where \<open>prost\<close> returns a \<open>DecodeError\<close>.\<close>

record 'x proto =
  encode_mesh_packet :: "'x mesh_packet \<Rightarrow> bytes"
  decode_mesh_packet :: "bytes \<Rightarrow> 'x mesh_packet option"
  encode_data :: "'x data_msg \<Rightarrow> bytes"
  decode_data :: "bytes \<Rightarrow> 'x data_msg option"
  decode_from_radio :: "bytes \<Rightarrow> 'x from_radio option"
  encode_to_radio :: "'x to_radio \<Rightarrow> bytes"
  encode_envelope :: "'x service_envelope \<Rightarrow> bytes"
  encode_admin :: "'x admin_message \<Rightarrow> bytes"
  transport_multicast_udp :: i32
  transport_mqtt :: i32
  portnum_admin_app :: i32
  region_unset :: i32
  default_rest :: 'x

definition mesh_packet_default :: "'x proto \<Rightarrow> 'x mesh_packet" where
  "mesh_packet_default P =
     \<lparr>mp_from = 0, mp_to = 0, mp_channel = 0, mp_id = 0, mp_payload_variant = None,
      mp_pki_encrypted = False, mp_transport_mechanism = 0, mp_rest = default_rest P\<rparr>"

definition data_default :: "'x proto \<Rightarrow> 'x data_msg" where
  "data_default P =
     \<lparr>d_portnum = 0, d_payload = [], d_want_response = False, d_rest = default_rest P\<rparr>"

definition channel_settings_default :: "'x proto \<Rightarrow> 'x channel_settings" where
  "channel_settings_default P =
     \<lparr>cs_name = [], cs_psk = [], cs_downlink_enabled = False, cs_rest = default_rest P\<rparr>"

definition mqtt_config_default :: "'x proto \<Rightarrow> 'x mqtt_config" where
  "mqtt_config_default P =
     \<lparr>mq_enabled = False, mq_proxy_to_client_enabled = False, mq_address = [],
      mq_rest = default_rest P\<rparr>"

end
