(* ===== verification/Udp.thy ===== *)
theory Udp
  imports Proto
begin

text \<open>
  Model of \<open>src/udp.rs\<close>.  The multicast socket is the sequence of \<open>socket2\<close> calls that set it up; each
  call may fail, and the first failure is returned at once.  A failed call leaves the socket as it was,
  and the socket is closed by the early return.
\<close>

type_synonym ipv4 = u32

definition UNSPECIFIED :: ipv4 where "UNSPECIFIED = 0"

record udp_socket =
  reuse_address :: bool
  reuse_port :: bool
  bound_to :: "(ipv4 \<times> u16) option"
  joined :: "(ipv4 \<times> ipv4) list"
  multicast_ttl :: nat
  multicast_loop :: bool
  multicast_if :: "ipv4 option"

datatype socket_call =
    Set_reuse_address bool
  | Set_reuse_port bool
  | Bind ipv4 u16
  | Join_multicast ipv4 ipv4
  | Set_multicast_ttl nat
  | Set_multicast_loop bool
  | Set_multicast_if ipv4

fun apply_call :: "socket_call \<Rightarrow> udp_socket \<Rightarrow> udp_socket" where
  "apply_call (Set_reuse_address b) s = s\<lparr>reuse_address := b\<rparr>"
| "apply_call (Set_reuse_port b) s = s\<lparr>reuse_port := b\<rparr>"
| "apply_call (Bind a p) s = s\<lparr>bound_to := Some (a, p)\<rparr>"
| "apply_call (Join_multicast g i) s = s\<lparr>joined := joined s @ [(g, i)]\<rparr>"
| "apply_call (Set_multicast_ttl n) s = s\<lparr>multicast_ttl := n\<rparr>"
| "apply_call (Set_multicast_loop b) s = s\<lparr>multicast_loop := b\<rparr>"
| "apply_call (Set_multicast_if a) s = s\<lparr>multicast_if := Some a\<rparr>"

text \<open>The operating system: a fresh socket (or why there is none) and which calls fail.\<close>

record udp_os =
  new_socket :: "udp_socket io_result"
  call_error :: "socket_call \<Rightarrow> io_error option"

fun run_calls :: "udp_os \<Rightarrow> socket_call list \<Rightarrow> udp_socket \<Rightarrow> udp_socket io_result" where
  "run_calls os [] s = Inr s"
| "run_calls os (c # cs) s =
     (case call_error os c of Some e \<Rightarrow> Inl e | None \<Rightarrow> run_calls os cs (apply_call c s))"

definition setup_multicast_socket :: "udp_os \<Rightarrow> ipv4 \<Rightarrow> u16 \<Rightarrow> ipv4 option \<Rightarrow> udp_socket io_result" where
  "setup_multicast_socket os multicast_addr port interface =
     bind_result (new_socket os) (\<lambda>socket.
       let iface = (case interface of Some a \<Rightarrow> a | None \<Rightarrow> UNSPECIFIED) in
       run_calls os
         ([Set_reuse_address True, Set_reuse_port True, Bind UNSPECIFIED port,
           Join_multicast multicast_addr iface, Set_multicast_ttl 1, Set_multicast_loop False]
          @ (case interface of Some addr \<Rightarrow> [Set_multicast_if addr] | None \<Rightarrow> [])) socket)"

definition decode_packet :: "'x proto \<Rightarrow> bytes \<Rightarrow> 'x mesh_packet option" where
  "decode_packet P data = decode_mesh_packet P data"

record datagram =
  dg_data :: bytes
  dg_addr :: ipv4
  dg_port :: u16

text \<open>\<open>send_multicast\<close> hands one datagram to the socket; its result is only logged by the caller.\<close>

definition send_multicast :: "bytes \<Rightarrow> ipv4 \<Rightarrow> u16 \<Rightarrow> datagram" where
  "send_multicast data multicast_addr port = \<lparr>dg_data = data, dg_addr = multicast_addr, dg_port = port\<rparr>"

section \<open>Properties\<close>

lemma run_calls_Inr:
  "run_calls os cs s = Inr s' \<longleftrightarrow> (\<forall>c \<in> set cs. call_error os c = None) \<and> s' = fold apply_call cs s"
  by (induction cs arbitrary: s) (auto split: option.splits)

text \<open>When the setup succeeds, the socket shares its port, is bound to it on every address, has
  joined the group on the chosen interface, sends with TTL 1 and never hears its own datagrams, so
  that a forwarded packet does not come back through the kernel.\<close>

theorem setup_multicast_socket_configured:
  assumes "setup_multicast_socket os mcast port interface = Inr s" and "new_socket os = Inr s0"
  shows "reuse_address s \<and> reuse_port s \<and> bound_to s = Some (UNSPECIFIED, port) \<and>
    joined s = joined s0 @ [(mcast, case interface of Some a \<Rightarrow> a | None \<Rightarrow> UNSPECIFIED)] \<and>
    multicast_ttl s = 1 \<and> \<not> multicast_loop s \<and>
    multicast_if s = (case interface of Some a \<Rightarrow> Some a | None \<Rightarrow> multicast_if s0)"
  using assms
  by (auto simp: setup_multicast_socket_def run_calls_Inr Let_def split: option.splits)

definition sample_socket :: udp_socket where
  "sample_socket = \<lparr>reuse_address = False, reuse_port = False, bound_to = None, joined = [],
     multicast_ttl = 64, multicast_loop = True, multicast_if = None\<rparr>"

definition sample_os :: udp_os where
  "sample_os = \<lparr>new_socket = Inr sample_socket, call_error = (\<lambda>_. None)\<rparr>"

theorem setup_multicast_socket_configured_witness:
  "\<exists>s. setup_multicast_socket sample_os 7 4403 (Some 5) = Inr s \<and> \<not> multicast_loop s \<and>
    multicast_ttl s = 1 \<and> joined s = [(7, 5)]"
proof -
  have os: "new_socket sample_os = Inr sample_socket" by (simp add: sample_os_def)
  obtain s where s: "setup_multicast_socket sample_os 7 4403 (Some 5) = Inr s"
    by (simp add: setup_multicast_socket_def sample_os_def)
  from setup_multicast_socket_configured [OF s os] s show ?thesis
    by (simp add: sample_socket_def)
qed

end
