(* ===== verification/Sample.thy ===== *)
theory Sample
  imports Proto Crypto
begin

text \<open>
  A small concrete instance of the development's parameters (the generated message codecs and the block
  cipher), on which the closed examples of the theories evaluate.  It is not the protobuf wire format:
  theorems hold for every instance.
\<close>

fun sample_encode_mesh :: "unit mesh_packet \<Rightarrow> bytes" where
  "sample_encode_mesh p =
     [ucast (mp_from p), ucast (mp_to p), ucast (mp_id p), ucast (mp_channel p), ucast (mp_transport_mechanism p)] @
     (case mp_payload_variant p of
        None \<Rightarrow> [0]
      | Some (Decoded d) \<Rightarrow> 1 # d_payload d
      | Some (Encrypted c) \<Rightarrow> 2 # c)"

definition sample_data :: "bytes \<Rightarrow> unit data_msg" where
  "sample_data bs = \<lparr>d_portnum = 1, d_payload = bs, d_want_response = False, d_rest = ()\<rparr>"

definition sample_packet :: "u32 \<Rightarrow> u32 \<Rightarrow> u32 \<Rightarrow> u32 \<Rightarrow> i32 \<Rightarrow> unit packet_payload option \<Rightarrow> unit mesh_packet" where
  "sample_packet f t i ch tm pv =
     \<lparr>mp_from = f, mp_to = t, mp_channel = ch, mp_id = i, mp_payload_variant = pv,
      mp_pki_encrypted = False, mp_transport_mechanism = tm, mp_rest = ()\<rparr>"

fun sample_decode_mesh :: "bytes \<Rightarrow> unit mesh_packet option" where
  "sample_decode_mesh (f # t # i # ch # tm # kind # bs) =
     Some (sample_packet (ucast f) (ucast t) (ucast i) (ucast ch) (ucast tm)
       (if kind = 1 then Some (Decoded (sample_data bs))
        else if kind = 2 then Some (Encrypted bs)
        else None))"
| "sample_decode_mesh _ = None"

fun sample_decode_from_radio :: "bytes \<Rightarrow> unit from_radio option" where
  "sample_decode_from_radio [] = Some \<lparr>fr_id = 0, fr_payload_variant = None\<rparr>"
| "sample_decode_from_radio (kind # bs) =
     (if kind = 1 \<and> length bs = 1
      then Some \<lparr>fr_id = 0, fr_payload_variant = Some (From_my_info (ucast (hd bs)) ())\<rparr>
      else if kind = 2 \<and> length bs = 1
      then Some \<lparr>fr_id = 0, fr_payload_variant = Some (From_config_complete_id (ucast (hd bs)))\<rparr>
      else if kind = 3 \<and> bs = []
      then Some \<lparr>fr_id = 0, fr_payload_variant = Some (From_rebooted True)\<rparr>
      else if kind = 4
      then map_option (\<lambda>p. \<lparr>fr_id = 0, fr_payload_variant = Some (From_packet p)\<rparr>) (sample_decode_mesh bs)
      else None)"

fun sample_encode_to_radio :: "unit to_radio \<Rightarrow> bytes" where
  "sample_encode_to_radio (To_packet p) = 7 # sample_encode_mesh p"
| "sample_encode_to_radio (To_want_config_id i) = [9, ucast i]"
| "sample_encode_to_radio (To_heartbeat n) = [8, ucast n]"
| "sample_encode_to_radio (To_mqtt_proxy m) = 6 # (case pm_payload_variant m of Some (Proxy_data d) \<Rightarrow> d | _ \<Rightarrow> [])"
| "sample_encode_to_radio (To_other _) = []"

definition sample_encode_envelope :: "unit service_envelope \<Rightarrow> bytes" where
  "sample_encode_envelope e =
     of_nat (length (se_channel_id e)) # as_bytes (se_channel_id e) @
     (case se_packet e of Some p \<Rightarrow> sample_encode_mesh p | None \<Rightarrow> [])"

definition sample_proto :: "unit proto" where
  "sample_proto =
     \<lparr>encode_mesh_packet = sample_encode_mesh, decode_mesh_packet = sample_decode_mesh,
      encode_data = d_payload, decode_data = (\<lambda>bs. Some (sample_data bs)),
      decode_from_radio = sample_decode_from_radio, encode_to_radio = sample_encode_to_radio,
      encode_envelope = sample_encode_envelope, encode_admin = (\<lambda>a. [5]),
      transport_multicast_udp = 6, transport_mqtt = 5, portnum_admin_app = 6, region_unset = 0,
      default_rest = ()\<rparr>"

lemma sample_proto_simps [simp]:
  "encode_mesh_packet sample_proto = sample_encode_mesh"
  "decode_mesh_packet sample_proto = sample_decode_mesh"
  "encode_data sample_proto = d_payload"
  "decode_data sample_proto = (\<lambda>bs. Some (sample_data bs))"
  "decode_from_radio sample_proto = sample_decode_from_radio"
  "encode_to_radio sample_proto = sample_encode_to_radio"
  "encode_envelope sample_proto = sample_encode_envelope"
  "transport_multicast_udp sample_proto = 6"
  "transport_mqtt sample_proto = 5"
  "portnum_admin_app sample_proto = 6"
  "region_unset sample_proto = 0"
  by (simp_all add: sample_proto_def)

lemma sample_packet_simps [simp]:
  "mp_from (sample_packet f t i ch tm pv) = f"
  "mp_to (sample_packet f t i ch tm pv) = t"
  "mp_id (sample_packet f t i ch tm pv) = i"
  "mp_channel (sample_packet f t i ch tm pv) = ch"
  "mp_transport_mechanism (sample_packet f t i ch tm pv) = tm"
  "mp_payload_variant (sample_packet f t i ch tm pv) = pv"
  "mp_pki_encrypted (sample_packet f t i ch tm pv) = False"
  by (simp_all add: sample_packet_def)

text \<open>A block cipher that XORs the key into the block.\<close>

definition xor_block :: "bytes \<Rightarrow> block16 \<Rightarrow> block16" where
  "xor_block key block =
     Block16 (map (\<lambda>i. block_bytes block ! i XOR (if i < length key then key ! i else 0)) [0..<16])"

lemma block_bytes_xor_block:
  "block_bytes (xor_block key block) =
     map (\<lambda>i. block_bytes block ! i XOR (if i < length key then key ! i else 0)) [0..<16]"
  by (simp add: xor_block_def Block16_inverse)

definition sample_aes :: aes_crate where
  "sample_aes = \<lparr>aes128 = xor_block, aes256 = xor_block\<rparr>"

end
