(* ===== verification/Radio.thy ===== *)
theory Radio
  imports Framing Crypto Proto Sample
begin

text \<open>
  Model of \<open>src/serial.rs\<close>: decoding of frames from the radio, the frames the program writes, the
  \<open>want_config\<close> handshake with its probe variant, and the wait for a reboot.  The environment of a
  blocking loop is a list with one entry per iteration: what the clock says, what \<open>read\<close> returns, and
  whether a \<open>write_all\<close> in that iteration fails.  A loop that has used up the list is still running
  (\<open>None\<close>).  A \<open>write_all\<close> is recorded by the bytes handed to it, also when it fails.
\<close>

section \<open>Frames from the radio\<close>

datatype 'x radio_frame = Packet "'x mesh_packet" | Rebooted | Other

definition decode_frame :: "'x proto \<Rightarrow> bytes \<Rightarrow> 'x radio_frame" where
  "decode_frame P payload = (case decode_from_radio P payload of
     Some from_radio \<Rightarrow>
       (case fr_payload_variant from_radio of
          Some (From_packet p) \<Rightarrow> Packet p
        | Some (From_rebooted True) \<Rightarrow> Rebooted
        | Some _ \<Rightarrow> Other
        | None \<Rightarrow> Other)
   | None \<Rightarrow> Other)"

section \<open>Frames to the radio\<close>

definition write_packet :: "'x proto \<Rightarrow> 'x mesh_packet \<Rightarrow> bytes" where
  "write_packet P packet = frame_payload (encode_to_radio P (To_packet packet))"

definition send_admin :: "'x proto \<Rightarrow> u32 \<Rightarrow> 'x admin_variant \<Rightarrow> bytes" where
  "send_admin P my_node_num variant =
     (let admin_msg = \<lparr>am_session_passkey = [], am_payload_variant = Some variant\<rparr>;
          admin_bytes = encode_admin P admin_msg;
          data = (data_default P)\<lparr>d_portnum := portnum_admin_app P, d_payload := admin_bytes,
                    d_want_response := False\<rparr>;
          packet = (mesh_packet_default P)\<lparr>mp_to := my_node_num, mp_channel := 0,
                      mp_payload_variant := Some (Decoded data)\<rparr>
      in write_packet P packet)"

definition send_set_channel :: "'x proto \<Rightarrow> u32 \<Rightarrow> 'x channel \<Rightarrow> bytes" where
  "send_set_channel P my_node_num channel = send_admin P my_node_num (Set_channel channel)"

definition send_set_mqtt_config :: "'x proto \<Rightarrow> u32 \<Rightarrow> 'x mqtt_config \<Rightarrow> bytes" where
  "send_set_mqtt_config P my_node_num mqtt =
     send_admin P my_node_num (Set_module_config (Some (Mqtt mqtt)))"

definition write_mqtt_proxy :: "'x proto \<Rightarrow> 'x service_envelope \<Rightarrow> bytes" where
  "write_mqtt_proxy P envelope =
     (let topic = ''msh/2/e/'' @ se_channel_id envelope @ ''/'' @ se_gateway_id envelope;
          to_radio = To_mqtt_proxy \<lparr>pm_topic = topic, pm_retained = False,
                       pm_payload_variant = Some (Proxy_data (encode_envelope P envelope))\<rparr>
      in frame_payload (encode_to_radio P to_radio))"

section \<open>What the handshake learns\<close>

record 'x radio_info =
  ri_my_node_num :: u32
  ri_modem_preset :: i32
  ri_use_preset :: bool
  ri_region :: i32
  ri_channels :: "'x channel list"
  ri_mqtt :: "'x mqtt_config option"

definition radio_info_new :: "'x radio_info" where
  "radio_info_new = \<lparr>ri_my_node_num = 0, ri_modem_preset = 0, ri_use_preset = True, ri_region = 0,
                     ri_channels = [], ri_mqtt = None\<rparr>"

definition channel_keys :: "'x radio_info \<Rightarrow> channel_key list" where
  "channel_keys info = List.map_filter
     (\<lambda>ch. case ch_settings ch of
        None \<Rightarrow> None
      | Some settings \<Rightarrow>
          Some (channel_key_from_proto (ch_index ch)
            (channel_display_name (cs_name settings) (ri_use_preset info) (ri_modem_preset info))
            (cs_psk settings)))
     (ri_channels info)"

section \<open>The handshake\<close>

definition HANDSHAKE_TIMEOUT :: nat where "HANDSHAKE_TIMEOUT = 30000"

record probe_timeouts =
  pt_first_frame :: nat
  pt_resend :: nat
  pt_total :: nat

definition PROBE_TIMEOUTS :: probe_timeouts where
  "PROBE_TIMEOUTS = \<lparr>pt_first_frame = 6000, pt_resend = 2000, pt_total = HANDSHAKE_TIMEOUT\<rparr>"

record hs_input =
  hi_now :: nat
  hi_resend_write :: "io_error option"
  hi_read :: read_outcome
  hi_reboot_write :: "io_error option"

record hs_config =
  hc_config_id :: u32
  hc_request :: bytes
  hc_frame :: bytes
  hc_start :: nat
  hc_deadline :: nat
  hc_probe :: "probe_timeouts option"

record 'x hs_state =
  hs_heard :: bool
  hs_next_resend :: "nat option"
  hs_reader :: frame_reader
  hs_info :: "'x radio_info"
  hs_node :: "u32 option"

datatype 'x hs_step = Hs_continue "'x hs_state" | Hs_done "'x radio_info io_result"

definition timed_out :: "string \<Rightarrow> io_error" where "timed_out msg = Io_error TimedOut msg"

fun hs_on_variant ::
  "hs_config \<Rightarrow> io_error option \<Rightarrow> 'x hs_state \<Rightarrow> 'x from_radio_variant \<Rightarrow> bytes list \<times> 'x hs_step" where
  "hs_on_variant c reboot_write s (From_config_complete_id i) =
     ([], if i = hc_config_id c
          then (case hs_node s of
                  None \<Rightarrow> Hs_done (Inl (Io_error InvalidData ''handshake completed without receiving MyNodeInfo''))
                | Some n \<Rightarrow> Hs_done (Inr ((hs_info s)\<lparr>ri_my_node_num := n\<rparr>)))
          else Hs_continue s)"
| "hs_on_variant c reboot_write s (From_my_info n _) = ([], Hs_continue (s\<lparr>hs_node := Some n\<rparr>))"
| "hs_on_variant c reboot_write s (From_config (Some (Lora lora))) =
     ([], Hs_continue (s\<lparr>hs_info := (hs_info s)\<lparr>ri_modem_preset := lo_modem_preset lora,
            ri_use_preset := lo_use_preset lora, ri_region := lo_region lora\<rparr>\<rparr>))"
| "hs_on_variant c reboot_write s (From_config _) = ([], Hs_continue s)"
| "hs_on_variant c reboot_write s (From_module_config (Some (Mqtt mqtt))) =
     ([], Hs_continue (s\<lparr>hs_info := (hs_info s)\<lparr>ri_mqtt := Some mqtt\<rparr>\<rparr>))"
| "hs_on_variant c reboot_write s (From_module_config _) = ([], Hs_continue s)"
| "hs_on_variant c reboot_write s (From_rebooted True) =
     ([hc_frame c],
      case reboot_write of
        Some e \<Rightarrow> Hs_done (Inl e)
      | None \<Rightarrow> Hs_continue (s\<lparr>hs_info := radio_info_new, hs_node := None\<rparr>))"
| "hs_on_variant c reboot_write s (From_channel ch) =
     ([], Hs_continue
        (if (ch_role ch = 1 \<or> ch_role ch = 2) \<and> ch_settings ch \<noteq> None
         then s\<lparr>hs_info := (hs_info s)\<lparr>ri_channels := ri_channels (hs_info s) @ [ch]\<rparr>\<rparr>
         else s))"
| "hs_on_variant c reboot_write s _ = ([], Hs_continue s)"

definition hs_on_payload ::
  "'x proto \<Rightarrow> hs_config \<Rightarrow> io_error option \<Rightarrow> 'x hs_state \<Rightarrow> bytes \<Rightarrow> bytes list \<times> 'x hs_step" where
  "hs_on_payload P c reboot_write s payload =
     (case decode_from_radio P payload of
        Some from_radio \<Rightarrow>
          (if \<not> hs_heard s \<and> (payload = hc_request c \<or> fr_payload_variant from_radio = None)
           then ([], Hs_continue s)
           else
             (let s' = s\<lparr>hs_heard := True\<rparr> in
              case fr_payload_variant from_radio of
                None \<Rightarrow> ([], Hs_continue s')
              | Some variant \<Rightarrow> hs_on_variant c reboot_write s' variant))
      | None \<Rightarrow> ([], Hs_continue s))"

definition hs_on_read ::
  "'x proto \<Rightarrow> hs_config \<Rightarrow> hs_input \<Rightarrow> 'x hs_state \<Rightarrow> bytes list \<times> 'x hs_step" where
  "hs_on_read P c i s =
     (case hi_read i of
        Read_ok [] \<Rightarrow>
          ([], Hs_done (Inl (Io_error UnexpectedEof ''serial port closed during handshake'')))
      | Read_ok (b # _) \<Rightarrow>
          (case feed (hs_reader s) b of
             (r', None) \<Rightarrow> ([], Hs_continue (s\<lparr>hs_reader := r'\<rparr>))
           | (r', Some payload) \<Rightarrow> hs_on_payload P c (hi_reboot_write i) (s\<lparr>hs_reader := r'\<rparr>) payload)
      | Read_err e \<Rightarrow>
          ([], if error_kind e = TimedOut then Hs_continue s else Hs_done (Inl e)))"

definition hs_iteration ::
  "'x proto \<Rightarrow> hs_config \<Rightarrow> hs_input \<Rightarrow> 'x hs_state \<Rightarrow> bytes list \<times> 'x hs_step" where
  "hs_iteration P c i s =
     (let now = hi_now i in
      if hc_deadline c < now
      then ([], Hs_done (Inl (timed_out ''handshake timed out waiting for config_complete_id'')))
      else (case (hs_heard s, hc_probe c) of
          (False, Some p) \<Rightarrow>
            (if hc_start c + pt_first_frame p < now
             then ([], Hs_done (Inl (timed_out ''no Meshtastic reply'')))
             else if (case hs_next_resend s of Some t \<Rightarrow> t \<le> now | None \<Rightarrow> False)
             then (case hi_resend_write i of
                 Some e \<Rightarrow> ([hc_frame c], Hs_done (Inl e))
               | None \<Rightarrow>
                   (case hs_on_read P c i (s\<lparr>hs_next_resend := Some (now + pt_resend p)\<rparr>) of
                      (ws, step) \<Rightarrow> (hc_frame c # ws, step)))
             else hs_on_read P c i s)
        | _ \<Rightarrow> hs_on_read P c i s))"

fun hs_loop ::
  "'x proto \<Rightarrow> hs_config \<Rightarrow> 'x hs_state \<Rightarrow> hs_input list \<Rightarrow> bytes list \<times> 'x radio_info io_result option" where
  "hs_loop P c s [] = ([], None)"
| "hs_loop P c s (i # is) =
     (case hs_iteration P c i s of
        (ws, Hs_done r) \<Rightarrow> (ws, Some r)
      | (ws, Hs_continue s') \<Rightarrow> (case hs_loop P c s' is of (ws', r) \<Rightarrow> (ws @ ws', r)))"

definition want_config_request :: "'x proto \<Rightarrow> u32 \<Rightarrow> bytes" where
  "want_config_request P config_id = encode_to_radio P (To_want_config_id config_id)"

definition hs_config_for ::
  "'x proto \<Rightarrow> u32 \<Rightarrow> nat \<Rightarrow> nat \<Rightarrow> probe_timeouts option \<Rightarrow> hs_config" where
  "hs_config_for P config_id start timeout probe =
     \<lparr>hc_config_id = config_id, hc_request = want_config_request P config_id,
      hc_frame = frame_payload (want_config_request P config_id),
      hc_start = start, hc_deadline = start + timeout, hc_probe = probe\<rparr>"

definition hs_initial :: "nat \<Rightarrow> probe_timeouts option \<Rightarrow> 'x hs_state" where
  "hs_initial start probe =
     \<lparr>hs_heard = (probe = None), hs_next_resend = map_option (\<lambda>p. start + pt_resend p) probe,
      hs_reader = FrameReader_new, hs_info = radio_info_new, hs_node = None\<rparr>"

text \<open>\<open>config_id\<close> is the random number drawn at the start, \<open>start\<close> the instant after the first write.\<close>

definition run_handshake ::
  "'x proto \<Rightarrow> u32 \<Rightarrow> nat \<Rightarrow> probe_timeouts option \<Rightarrow> io_error option \<Rightarrow> nat \<Rightarrow> hs_input list \<Rightarrow>
     bytes list \<times> 'x radio_info io_result option" where
  "run_handshake P config_id timeout probe first_write start is =
     (let c = hs_config_for P config_id start timeout probe in
      case first_write of
        Some e \<Rightarrow> ([hc_frame c], Some (Inl e))
      | None \<Rightarrow>
          (case hs_loop P c (hs_initial start probe) is of (ws, r) \<Rightarrow> (hc_frame c # ws, r)))"

definition handshake_with_timeout ::
  "'x proto \<Rightarrow> u32 \<Rightarrow> nat \<Rightarrow> io_error option \<Rightarrow> nat \<Rightarrow> hs_input list \<Rightarrow>
     bytes list \<times> 'x radio_info io_result option" where
  "handshake_with_timeout P config_id timeout = run_handshake P config_id timeout None"

definition handshake ::
  "'x proto \<Rightarrow> u32 \<Rightarrow> io_error option \<Rightarrow> nat \<Rightarrow> hs_input list \<Rightarrow>
     bytes list \<times> 'x radio_info io_result option" where
  "handshake P config_id = handshake_with_timeout P config_id HANDSHAKE_TIMEOUT"

definition probe_port ::
  "'x proto \<Rightarrow> u32 \<Rightarrow> probe_timeouts \<Rightarrow> io_error option \<Rightarrow> nat \<Rightarrow> hs_input list \<Rightarrow>
     bytes list \<times> 'x radio_info io_result option" where
  "probe_port P config_id timeouts = run_handshake P config_id (pt_total timeouts) (Some timeouts)"

section \<open>Waiting for a reboot\<close>

fun wait_loop :: "'x proto \<Rightarrow> nat \<Rightarrow> frame_reader \<Rightarrow> (nat \<times> read_outcome) list \<Rightarrow> bool io_result option" where
  "wait_loop P deadline reader [] = None"
| "wait_loop P deadline reader ((now, outcome) # is) =
     (if now < deadline then
        (case outcome of
           Read_ok [] \<Rightarrow> Some (Inl (Io_error UnexpectedEof ''serial port closed''))
         | Read_ok data \<Rightarrow>
             (case feed_bytes reader data of (reader', frames) \<Rightarrow>
                if list_ex (\<lambda>f. decode_frame P f = Rebooted) frames then Some (Inr True)
                else wait_loop P deadline reader' is)
         | Read_err e \<Rightarrow>
             (if error_kind e = TimedOut then wait_loop P deadline reader is else Some (Inl e)))
      else Some (Inr False))"

definition wait_for_reboot ::
  "'x proto \<Rightarrow> nat \<Rightarrow> nat \<Rightarrow> (nat \<times> read_outcome) list \<Rightarrow> bool io_result option" where
  "wait_for_reboot P start timeout is = wait_loop P (start + timeout) FrameReader_new is"

section \<open>Channel keys\<close>

lemma modem_preset_name_nonempty [simp]: "modem_preset_name p \<noteq> []"
  by (simp add: modem_preset_name_def)

lemma channel_display_name_nonempty [simp]: "channel_display_name name use_preset p \<noteq> []"
  by (simp add: channel_display_name_def)

lemma channel_keys_ok:
  assumes "ck \<in> set (channel_keys info)"
  shows "key_ok ck \<and> ck_name ck \<noteq> [] \<and>
    (\<exists>ch \<in> set (ri_channels info). ch_settings ch \<noteq> None \<and> ck_index ck = ch_index ch)"
  using assms by (auto simp: channel_keys_def List.map_filter_def split: option.splits)

section \<open>What one iteration writes and keeps\<close>

lemma hs_on_variant_writes: "w \<in> set (fst (hs_on_variant c rw s v)) \<Longrightarrow> w = hc_frame c"
  by (cases "(c, rw, s, v)" rule: hs_on_variant.cases) auto

lemma hs_on_payload_writes: "w \<in> set (fst (hs_on_payload P c rw s payload)) \<Longrightarrow> w = hc_frame c"
  by (auto simp: hs_on_payload_def Let_def dest: hs_on_variant_writes split: option.splits if_splits)

lemma hs_on_read_writes: "w \<in> set (fst (hs_on_read P c i s)) \<Longrightarrow> w = hc_frame c"
  by (auto simp: hs_on_read_def dest: hs_on_payload_writes
      split: read_outcome.splits list.splits prod.splits option.splits)

lemma hs_iteration_writes: "w \<in> set (fst (hs_iteration P c i s)) \<Longrightarrow> w = hc_frame c"
proof -
  have "hs_on_read P c i s' = (ws, st) \<Longrightarrow> w \<in> set ws \<Longrightarrow> w = hc_frame c" for s' ws st
    using hs_on_read_writes [of w P c i s'] by simp
  moreover assume "w \<in> set (fst (hs_iteration P c i s))"
  ultimately show "w = hc_frame c"
    by (fastforce simp: hs_iteration_def Let_def dest: hs_on_read_writes
        split: option.splits bool.splits prod.splits if_splits)
qed

section \<open>The polling loops\<close>

text \<open>One turn of each loop, and the loops as instances of the contract of polling loops.\<close>

definition hs_turn ::
  "'x proto \<Rightarrow> hs_config \<Rightarrow> 'x hs_state \<Rightarrow> hs_input \<Rightarrow> bytes list \<times> ('x hs_state + 'x radio_info io_result)" where
  "hs_turn P c s i = (case hs_iteration P c i s of
     (ws, Hs_continue s') \<Rightarrow> (ws, Inl s') | (ws, Hs_done r) \<Rightarrow> (ws, Inr r))"

interpretation hs_polling: polling_loop "hs_turn P c" "hs_loop P c" "\<lambda>i. hc_deadline c < hi_now i" for P c
proof unfold_locales
  show "hs_loop P c s (i # is) = (case hs_turn P c s i of
      (ws, Inr r) \<Rightarrow> (ws, Some r)
    | (ws, Inl s') \<Rightarrow> (case hs_loop P c s' is of (ws', r) \<Rightarrow> (ws @ ws', r)))" for s i "is"
    by (simp add: hs_turn_def split: prod.split hs_step.split)
  show "\<exists>r. snd (hs_turn P c s i) = Inr r" if "hc_deadline c < hi_now i" for s i
    using that by (simp add: hs_turn_def hs_iteration_def)
qed simp

definition wait_turn :: "'x proto \<Rightarrow> nat \<Rightarrow> frame_reader \<Rightarrow> nat \<times> read_outcome \<Rightarrow> unit list \<times> (frame_reader + bool io_result)" where
  "wait_turn P deadline reader i = (case i of (now, outcome) \<Rightarrow> ([],
     if now < deadline then
       (case outcome of
          Read_ok [] \<Rightarrow> Inr (Inl (Io_error UnexpectedEof ''serial port closed''))
        | Read_ok data \<Rightarrow>
            (case feed_bytes reader data of (reader', frames) \<Rightarrow>
               if list_ex (\<lambda>f. decode_frame P f = Rebooted) frames then Inr (Inr True) else Inl reader')
        | Read_err e \<Rightarrow> (if error_kind e = TimedOut then Inl reader else Inr (Inl e)))
     else Inr (Inr False)))"

interpretation wait_polling: polling_loop "wait_turn P deadline" "\<lambda>r is. ([], wait_loop P deadline r is)" "\<lambda>i. deadline \<le> fst i"
  for P deadline
proof unfold_locales
  show "([], wait_loop P deadline r (i # is)) = (case wait_turn P deadline r i of
      (ws, Inr x) \<Rightarrow> (ws, Some x)
    | (ws, Inl r') \<Rightarrow> (case ([], wait_loop P deadline r' is) of (ws', x) \<Rightarrow> (ws @ ws', x)))" for r i "is"
    by (cases i) (simp add: wait_turn_def split: read_outcome.split list.split prod.split)
  show "\<exists>x. snd (wait_turn P deadline r i) = Inr x" if "deadline \<le> fst i" for r i
    using that by (cases i) (simp add: wait_turn_def)
qed simp

lemma hs_turn_writes: "w \<in> set (fst (hs_turn P c s i)) \<Longrightarrow> w = hc_frame c"
  using hs_iteration_writes [of w P c i s] by (simp add: hs_turn_def split: prod.splits hs_step.splits)

lemma hs_loop_writes: "w \<in> set (fst (hs_loop P c s is)) \<Longrightarrow> w = hc_frame c"
  by (erule hs_polling.outputs [rotated]) (rule hs_turn_writes)

lemma wait_for_reboot_returns:
  "i \<in> set is \<Longrightarrow> start + timeout \<le> fst i \<Longrightarrow> wait_for_reboot P start timeout is \<noteq> None"
  using wait_polling.returns [of i "is" "start + timeout" P FrameReader_new] by (simp add: wait_for_reboot_def)

section \<open>Specification of the handshake\<close>

text \<open>
  What the handshake is meant to return, stated over the messages the radio sent: the dump that counts
  ends at the first \<open>config_complete_id\<close> with the requested id and begins after the last reboot before
  it; within it the last value of each setting counts, and every channel in use, in order.
\<close>

definition last_opt :: "'a list \<Rightarrow> 'a option" where
  "last_opt xs = (if xs = [] then None else Some (last xs))"

lemma last_opt_simps [simp]: "last_opt [] = None" "last_opt (xs @ [x]) = Some x"
  by (simp_all add: last_opt_def)

definition messages :: "'x proto \<Rightarrow> bytes list \<Rightarrow> 'x from_radio_variant list" where
  "messages P = List.map_filter
     (\<lambda>f. case decode_from_radio P f of None \<Rightarrow> None | Some fr \<Rightarrow> fr_payload_variant fr)"

definition my_nodes :: "'x from_radio_variant list \<Rightarrow> u32 list" where
  "my_nodes = List.map_filter (\<lambda>v. case v of From_my_info n _ \<Rightarrow> Some n | _ \<Rightarrow> None)"

definition loras :: "'x from_radio_variant list \<Rightarrow> 'x lora_config list" where
  "loras = List.map_filter (\<lambda>v. case v of From_config (Some (Lora l)) \<Rightarrow> Some l | _ \<Rightarrow> None)"

definition mqtts :: "'x from_radio_variant list \<Rightarrow> 'x mqtt_config list" where
  "mqtts = List.map_filter (\<lambda>v. case v of From_module_config (Some (Mqtt m)) \<Rightarrow> Some m | _ \<Rightarrow> None)"

definition channel_in_use :: "'x channel \<Rightarrow> bool" where
  "channel_in_use ch \<longleftrightarrow> (ch_role ch = 1 \<or> ch_role ch = 2) \<and> ch_settings ch \<noteq> None"

definition used_channels :: "'x from_radio_variant list \<Rightarrow> 'x channel list" where
  "used_channels = List.map_filter
     (\<lambda>v. case v of From_channel ch \<Rightarrow> if channel_in_use ch then Some ch else None | _ \<Rightarrow> None)"

definition info_of :: "'x from_radio_variant list \<Rightarrow> 'x radio_info" where
  "info_of vs =
     \<lparr>ri_my_node_num = 0,
      ri_modem_preset = (case last_opt (loras vs) of None \<Rightarrow> 0 | Some l \<Rightarrow> lo_modem_preset l),
      ri_use_preset = (case last_opt (loras vs) of None \<Rightarrow> True | Some l \<Rightarrow> lo_use_preset l),
      ri_region = (case last_opt (loras vs) of None \<Rightarrow> 0 | Some l \<Rightarrow> lo_region l),
      ri_channels = used_channels vs,
      ri_mqtt = last_opt (mqtts vs)\<rparr>"

definition since_reboot :: "'x from_radio_variant list \<Rightarrow> 'x from_radio_variant list" where
  "since_reboot vs = rev (takeWhile (\<lambda>v. v \<noteq> From_rebooted True) (rev vs))"

definition dump_result :: "'x from_radio_variant list \<Rightarrow> 'x radio_info io_result" where
  "dump_result vs = (case last_opt (my_nodes vs) of
     None \<Rightarrow> Inl (Io_error InvalidData ''handshake completed without receiving MyNodeInfo'')
   | Some n \<Rightarrow> Inr ((info_of vs)\<lparr>ri_my_node_num := n\<rparr>))"

definition handshake_spec :: "u32 \<Rightarrow> 'x from_radio_variant list \<Rightarrow> 'x radio_info io_result option" where
  "handshake_spec config_id vs =
     (if From_config_complete_id config_id \<in> set vs
      then Some (dump_result (since_reboot (takeWhile (\<lambda>v. v \<noteq> From_config_complete_id config_id) vs)))
      else None)"

text \<open>The bytes a handshake reads: one per \<open>read\<close>, since its buffer holds one.\<close>

definition received :: "hs_input list \<Rightarrow> bytes" where
  "received is = concat (map (\<lambda>i. case hi_read i of Read_ok bs \<Rightarrow> take 1 bs | Read_err _ \<Rightarrow> []) is)"

lemma received_simps [simp]:
  "received [] = []"
  "received (i # is) = (case hi_read i of Read_ok bs \<Rightarrow> take 1 bs | Read_err _ \<Rightarrow> []) @ received is"
  by (simp_all add: received_def)

section \<open>The loop tracks the specification\<close>

lemma map_filter_snoc [simp]:
  "List.map_filter f (xs @ [x]) = List.map_filter f xs @ (case f x of None \<Rightarrow> [] | Some y \<Rightarrow> [y])"
  by (simp add: List.map_filter_def split: option.split)

lemma since_reboot_snoc:
  "since_reboot (vs @ [v]) = (if v = From_rebooted True then [] else since_reboot vs @ [v])"
  by (simp add: since_reboot_def)

lemma messages_simps [simp]:
  "messages P [] = []"
  "messages P (f # fs) =
     (case decode_from_radio P f of None \<Rightarrow> [] | Some fr \<Rightarrow>
        (case fr_payload_variant fr of None \<Rightarrow> [] | Some v \<Rightarrow> [v])) @ messages P fs"
  by (simp_all add: messages_def List.map_filter_def split: option.split)

lemmas extractors = my_nodes_def loras_def mqtts_def used_channels_def

definition tracks :: "'x from_radio_variant list \<Rightarrow> 'x hs_state \<Rightarrow> bool" where
  "tracks vs s \<longleftrightarrow> hs_heard s \<and> hs_info s = info_of (since_reboot vs) \<and>
     hs_node s = last_opt (my_nodes (since_reboot vs))"

lemma hs_on_variant_tracks:
  assumes "tracks vs s" and "v \<noteq> From_config_complete_id (hc_config_id c)"
  shows "\<exists>s'. snd (hs_on_variant c None s v) = Hs_continue s' \<and> hs_reader s' = hs_reader s \<and> tracks (vs @ [v]) s'"
  using assms
  by (cases "(c, None :: io_error option, s, v)" rule: hs_on_variant.cases)
     (auto simp: tracks_def since_reboot_snoc info_of_def extractors channel_in_use_def radio_info_new_def
       List.map_filter_def)

lemma hs_on_variant_complete:
  assumes "tracks vs s"
  shows "snd (hs_on_variant c w s (From_config_complete_id (hc_config_id c))) = Hs_done (dump_result (since_reboot vs))"
  using assms by (simp add: tracks_def dump_result_def split: option.split)

text \<open>An iteration without a failure: in time, and \<open>read\<close> returns a byte or times out.\<close>

definition smooth :: "nat \<Rightarrow> hs_input \<Rightarrow> bool" where
  "smooth deadline i \<longleftrightarrow> hi_now i \<le> deadline \<and> hi_reboot_write i = None \<and>
     (case hi_read i of Read_ok bs \<Rightarrow> bs \<noteq> [] | Read_err e \<Rightarrow> error_kind e = TimedOut)"

definition spec_from :: "u32 \<Rightarrow> 'x from_radio_variant list \<Rightarrow> 'x from_radio_variant list \<Rightarrow> 'x radio_info io_result option" where
  "spec_from config_id done vs =
     (if From_config_complete_id config_id \<in> set vs
      then Some (dump_result (since_reboot (done @ takeWhile (\<lambda>v. v \<noteq> From_config_complete_id config_id) vs)))
      else None)"

lemma spec_from_simps [simp]:
  "spec_from n done [] = None"
  "spec_from n done (v # vs) =
     (if v = From_config_complete_id n then Some (dump_result (since_reboot done))
      else spec_from n (done @ [v]) vs)"
  by (simp_all add: spec_from_def)

lemma tracks_reader [simp]: "tracks vs (s\<lparr>hs_reader := r\<rparr>) = tracks vs s"
  by (simp add: tracks_def)

lemma hs_on_payload_tracks:
  assumes "tracks done s"
  shows "(messages P [f] = [] \<and> (\<exists>s'. snd (hs_on_payload P c None s f) = Hs_continue s' \<and>
            hs_reader s' = hs_reader s \<and> tracks done s')) \<or>
    (messages P [f] = [From_config_complete_id (hc_config_id c)] \<and>
       snd (hs_on_payload P c None s f) = Hs_done (dump_result (since_reboot done))) \<or>
    (\<exists>v s'. messages P [f] = [v] \<and> v \<noteq> From_config_complete_id (hc_config_id c) \<and>
       snd (hs_on_payload P c None s f) = Hs_continue s' \<and> hs_reader s' = hs_reader s \<and> tracks (done @ [v]) s')"
proof (cases "decode_from_radio P f")
  case None
  with assms show ?thesis by (simp add: hs_on_payload_def)
next
  case (Some fr)
  have heard: "s\<lparr>hs_heard := True\<rparr> = s" and "hs_heard s"
    using assms by (cases s; simp add: tracks_def)+
  show ?thesis
  proof (cases "fr_payload_variant fr")
    case None
    with Some \<open>hs_heard s\<close> assms show ?thesis by (simp add: hs_on_payload_def tracks_def)
  next
    case v: (Some v)
    have p: "hs_on_payload P c None s f = hs_on_variant c None s v" and m: "messages P [f] = [v]"
      using Some v \<open>hs_heard s\<close> by (simp_all add: hs_on_payload_def heard)
    show ?thesis
      using hs_on_variant_tracks [OF assms, of v c] hs_on_variant_complete [OF assms, of c None]
      by (cases "v = From_config_complete_id (hc_config_id c)") (auto simp only: p m)
  qed
qed

lemma hs_on_read_step:
  assumes "hi_read i = Read_ok (b # bs)" and "feed (hs_reader s) b = (r', out)"
  shows "hs_on_read P c i s = (case out of None \<Rightarrow> ([], Hs_continue (s\<lparr>hs_reader := r'\<rparr>))
    | Some payload \<Rightarrow> hs_on_payload P c (hi_reboot_write i) (s\<lparr>hs_reader := r'\<rparr>) payload)"
  using assms by (simp add: hs_on_read_def)

lemma hs_loop_continue:
  assumes "snd (hs_iteration P c i s) = Hs_continue s'"
  shows "snd (hs_loop P c s (i # is)) = snd (hs_loop P c s' is)"
  using assms by (cases "hs_iteration P c i s") (simp split: prod.split)

lemma hs_loop_done:
  assumes "snd (hs_iteration P c i s) = Hs_done r"
  shows "snd (hs_loop P c s (i # is)) = Some r"
  using assms by (cases "hs_iteration P c i s") simp

text \<open>Once the radio has been heard, a probe and a handshake are the same loop.\<close>

lemma hs_loop_tracks:
  assumes "\<forall>i \<in> set is. smooth (hc_deadline c) i" and "tracks done s"
  shows "snd (hs_loop P c s is) =
    spec_from (hc_config_id c) done (messages P (snd (feed_bytes (hs_reader s) (received is))))"
  using assms
proof (induction "is" arbitrary: s "done")
  case Nil
  then show ?case by simp
next
  case (Cons i "is")
  from Cons.prems have "smooth (hc_deadline c) i" and rest: "\<forall>i \<in> set is. smooth (hc_deadline c) i"
    and heard: "hs_heard s" by (auto simp: tracks_def)
  then have it: "hs_iteration P c i s = hs_on_read P c i s" and rw: "hi_reboot_write i = None"
    by (auto simp: hs_iteration_def smooth_def split: option.splits)
  show ?case
  proof (cases "hi_read i")
    case (Read_err e)
    with \<open>smooth _ i\<close> have "snd (hs_iteration P c i s) = Hs_continue s"
      by (simp add: it hs_on_read_def smooth_def)
    with Read_err show ?thesis
      using Cons.IH [OF rest Cons.prems(2)] by (simp add: hs_loop_continue del: hs_loop.simps)
  next
    case (Read_ok bs)
    with \<open>smooth _ i\<close> obtain b bs' where bs: "bs = b # bs'" by (cases bs) (auto simp: smooth_def)
    obtain r' out where f: "feed (hs_reader s) b = (r', out)" by fastforce
    note step = hs_on_read_step [where P = P and c = c, OF Read_ok [unfolded bs] f, unfolded rw, folded it]
    have fed: "feed_bytes (hs_reader s) (received (i # is)) =
        (case out of None \<Rightarrow> feed_bytes r' (received is)
         | Some p \<Rightarrow> (case feed_bytes r' (received is) of (r'', fs) \<Rightarrow> (r'', p # fs)))"
      using Read_ok bs f by (simp split: option.split)
    show ?thesis
    proof (cases out)
      case None
      then have "snd (hs_iteration P c i s) = Hs_continue (s\<lparr>hs_reader := r'\<rparr>)" by (simp add: step)
      with fed None show ?thesis
        using Cons.IH [OF rest, of "done" "s\<lparr>hs_reader := r'\<rparr>"] Cons.prems(2)
        by (simp add: hs_loop_continue del: hs_loop.simps received_simps)
    next
      case (Some p)
      let ?s = "s\<lparr>hs_reader := r'\<rparr>"
      have ms: "messages P (snd (feed_bytes (hs_reader s) (received (i # is)))) =
          messages P [p] @ messages P (snd (feed_bytes r' (received is)))"
        by (simp only: fed Some option.case) (simp split: prod.split)
      have it': "snd (hs_iteration P c i s) = snd (hs_on_payload P c None ?s p)"
        by (simp only: step Some option.case)
      from hs_on_payload_tracks [of "done" ?s P p c] Cons.prems(2) ms it' show ?thesis
        using Cons.IH [OF rest]
        by (auto simp: hs_loop_continue hs_loop_done simp del: hs_loop.simps received_simps feed_bytes.simps)
    qed
  qed
qed

section \<open>Ports that do not answer\<close>

text \<open>A frame that a probe does not take for an answer.\<close>

definition no_reply :: "'x proto \<Rightarrow> bytes \<Rightarrow> bytes \<Rightarrow> bool" where
  "no_reply P request f \<longleftrightarrow> f = request \<or> messages P [f] = []"

lemma hs_on_payload_no_reply:
  assumes "\<not> hs_heard s" and "no_reply P (hc_request c) f"
  shows "hs_on_payload P c w s f = ([], Hs_continue s)"
  using assms by (auto simp: hs_on_payload_def no_reply_def split: option.splits)

lemma hs_on_read_no_reply:
  assumes "\<not> hs_heard s"
    and "\<forall>f \<in> set (snd (feed_bytes (hs_reader s) (received (i # is)))). no_reply P (hc_request c) f"
  shows "fst (hs_on_read P c i s) = [] \<and>
    ((\<exists>e. snd (hs_on_read P c i s) = Hs_done (Inl e)) \<or>
     (\<exists>s'. snd (hs_on_read P c i s) = Hs_continue s' \<and> \<not> hs_heard s' \<and> hs_next_resend s' = hs_next_resend s \<and>
       (\<forall>f \<in> set (snd (feed_bytes (hs_reader s') (received is))). no_reply P (hc_request c) f)))"
proof (cases "hi_read i")
  case (Read_err e)
  with assms show ?thesis by (simp add: hs_on_read_def)
next
  case (Read_ok bs)
  show ?thesis
  proof (cases bs)
    case Nil
    with Read_ok show ?thesis by (simp add: hs_on_read_def)
  next
    case (Cons b bs')
    obtain r' out where f: "feed (hs_reader s) b = (r', out)" by fastforce
    note step = hs_on_read_step [where P = P and c = c, OF Read_ok [unfolded Cons] f]
    show ?thesis
    proof (cases out)
      case None
      with assms Read_ok Cons f step show ?thesis by simp
    next
      case (Some p)
      with assms(2) Read_ok Cons f have "no_reply P (hc_request c) p"
        and "\<forall>f \<in> set (snd (feed_bytes r' (received is))). no_reply P (hc_request c) f"
        by (auto split: prod.splits)
      with assms(1) step Some show ?thesis by (simp add: hs_on_payload_no_reply)
    qed
  qed
qed

text \<open>
  With no reply, every further request waits for \<open>resend\<close> and none is sent after \<open>first_frame\<close>: \<open>n\<close>
  requests take at least \<open>(n - 1) * resend\<close>.
\<close>

lemma hs_iteration_no_reply:
  assumes "hc_probe c = Some p" and "\<not> hs_heard s" and "hs_next_resend s = Some t"
    and "\<forall>f \<in> set (snd (feed_bytes (hs_reader s) (received (i # is)))). no_reply P (hc_request c) f"
  shows "(\<exists>e. snd (hs_iteration P c i s) = Hs_done (Inl e) \<and>
      (fst (hs_iteration P c i s) = [] \<or>
       fst (hs_iteration P c i s) = [hc_frame c] \<and> t \<le> hc_start c + pt_first_frame p)) \<or>
    (\<exists>s' t'. snd (hs_iteration P c i s) = Hs_continue s' \<and> \<not> hs_heard s' \<and> hs_next_resend s' = Some t' \<and>
      hi_now i \<le> hc_start c + pt_first_frame p \<and>
      (\<forall>f \<in> set (snd (feed_bytes (hs_reader s') (received is))). no_reply P (hc_request c) f) \<and>
      (fst (hs_iteration P c i s) = [] \<and> t' = t \<or>
       fst (hs_iteration P c i s) = [hc_frame c] \<and> t \<le> hc_start c + pt_first_frame p \<and> t + pt_resend p \<le> t'))"
proof -
  let ?late = "hc_deadline c < hi_now i \<or> hc_start c + pt_first_frame p < hi_now i"
  let ?s = "s\<lparr>hs_next_resend := Some (hi_now i + pt_resend p)\<rparr>"
  consider ?late | "\<not> ?late" "hi_now i < t" | "\<not> ?late" "t \<le> hi_now i" "hi_resend_write i = None"
    | e where "\<not> ?late" "t \<le> hi_now i" "hi_resend_write i = Some e"
    by (metis not_less option.exhaust)
  then show ?thesis
  proof cases
    case 1
    with assms(1,2) show ?thesis by (auto simp: hs_iteration_def Let_def)
  next
    case 2
    with assms(1-3) have "hs_iteration P c i s = hs_on_read P c i s"
      by (simp add: hs_iteration_def Let_def)
    with hs_on_read_no_reply [OF assms(2,4)] 2 assms(3) show ?thesis by auto
  next
    case 3
    with assms(1-3) have "hs_iteration P c i s = (hc_frame c # fst (hs_on_read P c i ?s), snd (hs_on_read P c i ?s))"
      by (simp add: hs_iteration_def Let_def split: prod.split)
    with hs_on_read_no_reply [of ?s i "is" P c] 3 assms(2,4) show ?thesis by auto
  next
    case 4
    with assms(1-3) show ?thesis by (auto simp: hs_iteration_def Let_def)
  qed
qed

lemma hs_loop_no_reply:
  assumes "hc_probe c = Some p"
  shows "\<not> hs_heard s \<Longrightarrow> hs_next_resend s = Some t \<Longrightarrow>
    \<forall>f \<in> set (snd (feed_bytes (hs_reader s) (received is))). no_reply P (hc_request c) f \<Longrightarrow>
    (\<nexists>info. snd (hs_loop P c s is) = Some (Inr info)) \<and>
    ((\<exists>i \<in> set is. hc_start c + pt_first_frame p < hi_now i) \<longrightarrow> snd (hs_loop P c s is) \<noteq> None) \<and>
    (fst (hs_loop P c s is) = [] \<or>
     t + (length (fst (hs_loop P c s is)) - 1) * pt_resend p \<le> hc_start c + pt_first_frame p)"
proof (induction "is" arbitrary: s t)
  case Nil
  then show ?case by simp
next
  case (Cons i "is")
  obtain ws st where it: "hs_iteration P c i s = (ws, st)" by fastforce
  note step = hs_iteration_no_reply [OF assms Cons.prems, unfolded it, simplified]
  show ?case
  proof (cases st)
    case (Hs_done r)
    with step it show ?thesis by auto
  next
    case (Hs_continue s')
    with step obtain t' where s': "\<not> hs_heard s'" "hs_next_resend s' = Some t'"
        "\<forall>f \<in> set (snd (feed_bytes (hs_reader s') (received is))). no_reply P (hc_request c) f"
      and now: "hi_now i \<le> hc_start c + pt_first_frame p"
      and ws: "ws = [] \<and> t' = t \<or>
        ws = [hc_frame c] \<and> t \<le> hc_start c + pt_first_frame p \<and> t + pt_resend p \<le> t'"
      by auto
    obtain ws' r where l: "hs_loop P c s' is = (ws', r)" by fastforce
    note IH = Cons.IH [OF s', unfolded l, simplified]
    have "fst (hs_loop P c s (i # is)) = ws @ ws'" and "snd (hs_loop P c s (i # is)) = r"
      using it Hs_continue l by simp_all
    moreover have "ws @ ws' = [] \<or> t + (length (ws @ ws') - 1) * pt_resend p \<le> hc_start c + pt_first_frame p"
      using ws IH by (cases ws') auto
    ultimately show ?thesis using IH now by auto
  qed
qed

section \<open>Waiting for a reboot\<close>

definition reboot_frame :: "'x proto \<Rightarrow> bytes \<Rightarrow> bool" where
  "reboot_frame P f \<longleftrightarrow> decode_frame P f = Rebooted"

definition calm :: "read_outcome \<Rightarrow> bool" where
  "calm o' = (case o' of Read_ok bs \<Rightarrow> bs \<noteq> [] | Read_err e \<Rightarrow> error_kind e = TimedOut)"

definition data_of :: "(nat \<times> read_outcome) list \<Rightarrow> bytes" where
  "data_of is = concat (map (\<lambda>i. case snd i of Read_ok bs \<Rightarrow> bs | Read_err _ \<Rightarrow> []) is)"

lemma wait_loop_spec:
  assumes "\<forall>i \<in> set is. calm (snd i)"
  shows "wait_loop P deadline r is =
    (let early = takeWhile (\<lambda>i. fst i < deadline) is in
     if list_ex (reboot_frame P) (snd (feed_bytes r (data_of early))) then Some (Inr True)
     else if length early < length is then Some (Inr False) else None)"
  using assms
proof (induction "is" arbitrary: r)
  case Nil
  then show ?case by (simp add: data_of_def)
next
  case (Cons i "is")
  obtain now outcome where i: "i = (now, outcome)" by fastforce
  show ?case
  proof (cases "now < deadline")
    case False
    with i show ?thesis by (simp add: data_of_def)
  next
    case early: True
    show ?thesis
    proof (cases outcome)
      case (Read_err e)
      with Cons early i show ?thesis by (simp add: calm_def data_of_def Let_def)
    next
      case (Read_ok bs)
      with Cons.prems i obtain b bs' where bs: "bs = b # bs'"
        by (cases bs) (auto simp: calm_def)
      obtain r' fs where f: "feed_bytes r bs = (r', fs)" by fastforce
      have dat: "data_of ((now, outcome) # js) = bs @ data_of js" for js
        by (simp add: data_of_def Read_ok)
      have "snd (feed_bytes r (bs @ data_of js)) = fs @ snd (feed_bytes r' (data_of js))" for js
        by (simp add: feed_bytes_append f split: prod.split)
      moreover have "wait_loop P deadline r (i # is) =
          (if list_ex (reboot_frame P) fs then Some (Inr True) else wait_loop P deadline r' is)"
        using early Read_ok i f unfolding reboot_frame_def by (simp add: bs del: feed_bytes.simps)
      ultimately show ?thesis
        using Cons.IH [of r'] Cons.prems early i dat by (simp add: Let_def del: wait_loop.simps)
    qed
  qed
qed

lemma run_handshake_loop:
  "snd (run_handshake P n timeout probe None start is) =
     snd (hs_loop P (hs_config_for P n start timeout probe) (hs_initial start probe) is)"
  "fst (run_handshake P n timeout probe None start is) = frame_payload (want_config_request P n) #
     fst (hs_loop P (hs_config_for P n start timeout probe) (hs_initial start probe) is)"
  by (simp_all add: run_handshake_def hs_config_for_def split: prod.split)

lemma run_handshake_writes:
  assumes "w \<in> set (fst (run_handshake P n timeout probe fw start is))"
  shows "w = frame_payload (want_config_request P n)"
proof -
  let ?c = "hs_config_for P n start timeout probe"
  have frame: "hc_frame ?c = frame_payload (want_config_request P n)" by (simp add: hs_config_for_def)
  show ?thesis
  proof (cases fw)
    case None
    with assms have "w = hc_frame ?c \<or> w \<in> set (fst (hs_loop P ?c (hs_initial start probe) is))"
      by (auto simp: run_handshake_loop frame)
    with frame show ?thesis by (auto dest: hs_loop_writes)
  next
    case (Some e)
    with assms frame show ?thesis by (simp add: run_handshake_def)
  qed
qed

lemma hs_initial_tracks: "tracks [] (hs_initial start None)"
  by (simp add: tracks_def hs_initial_def since_reboot_def info_of_def extractors radio_info_new_def
      List.map_filter_def)

definition byte_input :: "nat \<Rightarrow> u8 \<Rightarrow> hs_input" where
  "byte_input now b = \<lparr>hi_now = now, hi_resend_write = None, hi_read = Read_ok [b], hi_reboot_write = None\<rparr>"

definition quiet_input :: "nat \<Rightarrow> hs_input" where
  "quiet_input now = \<lparr>hi_now = now, hi_resend_write = None,
     hi_read = Read_err (timed_out ''read''), hi_reboot_write = None\<rparr>"

lemma received_bytes [simp]: "received (map (byte_input now) bs) = bs"
  by (induction bs) (simp_all add: byte_input_def)

lemma received_append [simp]: "received (xs @ ys) = received xs @ received ys"
  by (simp add: received_def)

lemma quiet_input_simps [simp]:
  "hi_now (quiet_input now) = now"
  "hi_read (quiet_input now) = Read_err (timed_out ''read'')"
  by (simp_all add: quiet_input_def)

lemma smooth_bytes [simp]: "now \<le> d \<Longrightarrow> list_all (smooth d) (map (byte_input now) bs)"
  by (simp add: list_all_iff smooth_def byte_input_def)

section \<open>Ports that answer\<close>

text \<open>An iteration of a probe without a failure, and its first phase: the answer has not come, its limit has not passed.\<close>

definition probing :: "probe_timeouts \<Rightarrow> nat \<Rightarrow> hs_input \<Rightarrow> bool" where
  "probing timeouts start i \<longleftrightarrow> smooth (start + pt_total timeouts) i \<and> hi_resend_write i = None"

lemma unheard_iteration:
  assumes "hc_probe c = Some p" and "smooth (hc_deadline c) i" and "hi_resend_write i = None"
    and "hi_now i \<le> hc_start c + pt_first_frame p" and "\<not> hs_heard s"
  shows "\<exists>t. snd (hs_iteration P c i s) = snd (hs_on_read P c i (s\<lparr>hs_next_resend := t\<rparr>))"
proof (cases "case hs_next_resend s of Some t \<Rightarrow> t \<le> hi_now i | None \<Rightarrow> False")
  case True
  with assms show ?thesis
    by (intro exI [of _ "Some (hi_now i + pt_resend p)"]) (simp add: hs_iteration_def smooth_def Let_def split: prod.split)
next
  case False
  with assms have "hs_iteration P c i s = hs_on_read P c i s" by (simp add: hs_iteration_def smooth_def Let_def)
  moreover have "s\<lparr>hs_next_resend := hs_next_resend s\<rparr> = s" by simp
  ultimately show ?thesis by metis
qed

lemma hs_on_payload_answer:
  assumes "\<not> no_reply P (hc_request c) f"
  shows "hs_on_payload P c w s f = hs_on_payload P c w (s\<lparr>hs_heard := True\<rparr>) f"
  using assms by (auto simp: hs_on_payload_def no_reply_def Let_def split: option.splits)

lemma hs_loop_answer:
  assumes "hc_probe c = Some p" and "\<forall>i \<in> set (early @ later). smooth (hc_deadline c) i \<and> hi_resend_write i = None"
    and "\<forall>i \<in> set early. hi_now i \<le> hc_start c + pt_first_frame p"
    and "\<not> hs_heard s" and "tracks [] (s\<lparr>hs_heard := True\<rparr>)"
    and "\<exists>f \<in> set (snd (feed_bytes (hs_reader s) (received early))). \<not> no_reply P (hc_request c) f"
  shows "snd (hs_loop P c s (early @ later)) = spec_from (hc_config_id c) []
    (messages P (dropWhile (no_reply P (hc_request c)) (snd (feed_bytes (hs_reader s) (received (early @ later))))))"
  using assms(2-)
proof (induction early arbitrary: s)
  case (Cons i early)
  have i: "smooth (hc_deadline c) i" "hi_resend_write i = None" "hi_now i \<le> hc_start c + pt_first_frame p"
    using Cons.prems(1,2) by simp_all
  then have rw: "hi_reboot_write i = None" by (simp add: smooth_def)
  have rest: "\<forall>i \<in> set (early @ later). smooth (hc_deadline c) i \<and> hi_resend_write i = None"
      "\<forall>i \<in> set early. hi_now i \<le> hc_start c + pt_first_frame p"
    using Cons.prems(1,2) by simp_all
  obtain t where it: "snd (hs_iteration P c i s) = snd (hs_on_read P c i (s\<lparr>hs_next_resend := t\<rparr>))"
    using unheard_iteration [OF assms(1) i Cons.prems(3), of P] by blast
  let ?s = "s\<lparr>hs_next_resend := t\<rparr>"
  have fresh: "tracks [] (?s\<lparr>hs_heard := True\<rparr>)" "tracks [] (?s\<lparr>hs_reader := r, hs_heard := True\<rparr>)" for r
    using Cons.prems(4) by (simp_all add: tracks_def)
  show ?case
  proof (cases "hi_read i")
    case (Read_err e)
    with i(1) have "snd (hs_iteration P c i s) = Hs_continue ?s" by (simp add: it hs_on_read_def smooth_def)
    with Read_err show ?thesis
      using Cons.IH [OF rest, of ?s] Cons.prems(3,5) fresh by (simp add: hs_loop_continue del: hs_loop.simps)
  next
    case (Read_ok bs)
    with i(1) obtain b bs' where bs: "bs = b # bs'" by (cases bs) (auto simp: smooth_def)
    obtain r' out where f: "feed (hs_reader s) b = (r', out)" by fastforce
    note step = hs_on_read_step [where P = P and c = c and s = ?s, OF Read_ok [unfolded bs], simplified, OF f, unfolded rw]
    have fed: "snd (feed_bytes (hs_reader s) (received (i # is))) =
        (case out of None \<Rightarrow> [] | Some p \<Rightarrow> [p]) @ snd (feed_bytes r' (received is))" for "is"
      using Read_ok bs f by (simp split: option.split prod.split)
    show ?thesis
    proof (cases "\<exists>f. out = Some f \<and> \<not> no_reply P (hc_request c) f")
      case False
      then have "snd (hs_iteration P c i s) = Hs_continue (?s\<lparr>hs_reader := r'\<rparr>)"
        using Cons.prems(3) by (auto simp: it step hs_on_payload_no_reply split: option.split)
      with False fed fresh show ?thesis
        using Cons.IH [OF rest, of "?s\<lparr>hs_reader := r'\<rparr>"] Cons.prems(3,5)
        by (auto simp: hs_loop_continue simp del: hs_loop.simps received_simps feed_bytes.simps split: option.splits)
    next
      case True
      then obtain f where out: "out = Some f" "\<not> no_reply P (hc_request c) f" by blast
      let ?h = "?s\<lparr>hs_reader := r', hs_heard := True\<rparr>"
      have heard: "tracks [] ?h" by (rule fresh(2))
      have it': "snd (hs_iteration P c i s) = snd (hs_on_payload P c None ?h f)"
        using hs_on_payload_answer [OF out(2), of None "?s\<lparr>hs_reader := r'\<rparr>"] by (simp add: it step out(1))
      have go: "\<forall>i \<in> set (early @ later). smooth (hc_deadline c) i" using rest(1) by simp
      have ms: "messages P (dropWhile (no_reply P (hc_request c)) (snd (feed_bytes (hs_reader s) (received (i # early @ later))))) =
          messages P [f] @ messages P (snd (feed_bytes r' (received (early @ later))))"
        by (simp only: fed out(1)) (simp add: out(2) del: received_simps)
      from hs_on_payload_tracks [OF heard, of P f c] ms it' show ?thesis
        using hs_loop_tracks [OF go, of _ _ P]
        by (auto simp: hs_loop_continue hs_loop_done simp del: hs_loop.simps received_simps feed_bytes.simps)
    qed
  qed
qed simp

lemma probe_tracks_spec:
  assumes "list_all (probing timeouts start) (early @ later)"
    and "list_all (\<lambda>i. hi_now i \<le> start + pt_first_frame timeouts) early"
    and "\<exists>f \<in> set (hunt (received early)). \<not> no_reply P (want_config_request P config_id) f"
  shows "snd (probe_port P config_id timeouts None start (early @ later)) =
    handshake_spec config_id (messages P
      (dropWhile (no_reply P (want_config_request P config_id)) (hunt (received (early @ later)))))"
proof -
  let ?c = "hs_config_for P config_id start (pt_total timeouts) (Some timeouts)"
  have 1: "\<forall>i \<in> set (early @ later). smooth (hc_deadline ?c) i \<and> hi_resend_write i = None"
    using assms(1) by (auto simp: probing_def hs_config_for_def list_all_iff)
  have 2: "\<forall>i \<in> set early. hi_now i \<le> hc_start ?c + pt_first_frame timeouts"
    using assms(2) by (simp add: hs_config_for_def list_all_iff)
  have heard: "tracks [] ((hs_initial start (Some timeouts))\<lparr>hs_heard := True\<rparr>)"
    using hs_initial_tracks [of start] by (simp add: tracks_def hs_initial_def)
  have "\<not> hs_heard (hs_initial start (Some timeouts))" by (simp add: hs_initial_def)
  from hs_loop_answer [OF _ 1 2 this heard, of P] assms(3) show ?thesis
    by (simp add: probe_port_def run_handshake_loop spec_from_def handshake_spec_def
        hs_config_for_def hs_initial_def FrameReader_new_def feed_bytes_reference)
qed

section \<open>Properties\<close>

text \<open>C9: the handshake refines its specification.  When every byte arrives before the deadline and
  nothing fails, the result of the byte-wise loop is the specification's result on the messages in the
  stream: nothing from before the radio's last reboot, the last value of each setting, the channels in
  use in order, and an error when the dump names no node.\<close>

theorem handshake_refines_spec:
  assumes "list_all (smooth (start + timeout)) is"
  shows "snd (handshake_with_timeout P config_id timeout None start is) =
    handshake_spec config_id (messages P (hunt (received is)))"
proof -
  let ?c = "hs_config_for P config_id start timeout None"
  have "\<forall>i \<in> set is. smooth (hc_deadline ?c) i"
    using assms by (simp add: hs_config_for_def list_all_iff)
  from hs_loop_tracks [OF this hs_initial_tracks, of P start]
  show ?thesis
    by (simp add: handshake_with_timeout_def run_handshake_loop spec_from_def handshake_spec_def
        hs_config_for_def hs_initial_def FrameReader_new_def feed_bytes_reference)
qed

theorem handshake_refines_spec_witness:
  "snd (handshake_with_timeout sample_proto 5 100 None 0
      (map (byte_input 0) (frame_payload [1, 7] @ frame_payload [3] @ frame_payload [1, 9] @ frame_payload [2, 5])))
    = Some (Inr (radio_info_new\<lparr>ri_my_node_num := 9\<rparr>))"
proof -
  let ?bs = "frame_payload [1, 7] @ frame_payload [3] @ frame_payload [1, 9] @ frame_payload [2, 5]"
  have "list_all (smooth (0 + 100)) (map (byte_input 0) ?bs)"
    by (rule smooth_bytes) simp
  moreover have "hunt ?bs = [[1, 7], [3], [1, 9], [2, 5]]"
    using serial_link.batch_arrives [of "[[1, 7], [3], [1, 9], [2, 5]]"] feed_bytes_reference(1) [of ?bs]
    by (simp add: FrameReader_new_def MAX_PACKET_SIZE_def)
  ultimately show ?thesis
    using handshake_refines_spec [of 0 100 "map (byte_input 0) ?bs" sample_proto 5]
    by (simp add: handshake_spec_def since_reboot_def dump_result_def info_of_def extractors
        List.map_filter_def last_opt_def radio_info_new_def del: frame_payload_shape)
qed

text \<open>C39: a probe refines the same specification.  When nothing fails and a genuine reply, neither an echo of the
  request nor noise, is complete within the limit for the first frame, the result is that of the
  specification on the messages from that reply on, however the bytes are spread over the time up to the
  limit of the whole handshake, whatever noise and frames precede them and whatever requests are repeated.\<close>

theorem probe_refines_spec:
  assumes "list_all (probing timeouts start) (early @ later)"
    and "list_all (\<lambda>i. hi_now i \<le> start + pt_first_frame timeouts) early"
    and "\<exists>f \<in> set (hunt (received early)). \<not> no_reply P (want_config_request P config_id) f"
  shows "snd (probe_port P config_id timeouts None start (early @ later)) =
    handshake_spec config_id (messages P
      (dropWhile (no_reply P (want_config_request P config_id)) (hunt (received (early @ later)))))"
  by (rule probe_tracks_spec [OF assms])

text \<open>A request echoed after half a second; the radio answers after three, in two parts, one request having been repeated.\<close>

theorem probe_refines_spec_witness:
  "snd (probe_port sample_proto 5 PROBE_TIMEOUTS None 0
      (map (byte_input 500) (frame_payload [9, 5]) @ map (byte_input 3000) (frame_payload [1, 7]) @
       [quiet_input 8000] @ map (byte_input 9000) (frame_payload [2, 5])))
    = Some (Inr (radio_info_new\<lparr>ri_my_node_num := 7\<rparr>))"
proof -
  let ?early = "map (byte_input 500) (frame_payload [9, 5]) @ map (byte_input 3000) (frame_payload [1, 7])"
  let ?later = "[quiet_input 8000] @ map (byte_input 9000) (frame_payload [2, 5])"
  have early: "hunt (received ?early) = [[9, 5], [1, 7]]"
    using serial_link.batch_arrives [of "[[9, 5], [1, 7]]"] feed_bytes_reference(1) [of "received ?early"]
    by (simp add: received_append FrameReader_new_def MAX_PACKET_SIZE_def del: received_simps)
  have all: "hunt (received (?early @ ?later)) = [[9, 5], [1, 7], [2, 5]]"
    using serial_link.batch_arrives [of "[[9, 5], [1, 7], [2, 5]]"] feed_bytes_reference(1) [of "received (?early @ ?later)"]
    by (simp add: received_append FrameReader_new_def MAX_PACKET_SIZE_def quiet_input_def)
  have "list_all (probing PROBE_TIMEOUTS 0) (?early @ ?later)" and "list_all (\<lambda>i. hi_now i \<le> 0 + pt_first_frame PROBE_TIMEOUTS) ?early"
    by (auto simp: list_all_iff probing_def smooth_def byte_input_def quiet_input_def PROBE_TIMEOUTS_def HANDSHAKE_TIMEOUT_def timed_out_def)
  from probe_refines_spec [OF this, of sample_proto 5, unfolded early all] show ?thesis
    by (simp add: no_reply_def want_config_request_def handshake_spec_def since_reboot_def dump_result_def info_of_def
        extractors List.map_filter_def last_opt_def radio_info_new_def del: frame_payload_shape received_simps)
qed

text \<open>C30: a handshake or probe always ends: once the clock passes the deadline, it has returned, and nothing that
  happens later changes what it wrote or its result.\<close>

theorem handshake_returns:
  assumes "i \<in> set is" and "start + timeout < hi_now i"
  shows "snd (run_handshake P config_id timeout probe first_write start is) \<noteq> None \<and>
    run_handshake P config_id timeout probe first_write start (is @ later) =
      run_handshake P config_id timeout probe first_write start is"
proof (cases first_write)
  case None
  have "hc_deadline (hs_config_for P config_id start timeout probe) < hi_now i"
    using assms(2) by (simp add: hs_config_for_def)
  note returned = hs_polling.returns [OF assms(1) this, of P "hs_initial start probe"]
  from None returned show ?thesis
    by (simp add: run_handshake_loop(1)) (simp add: run_handshake_def hs_polling.later_inputs_ignored [OF returned])
qed (simp add: run_handshake_def)

theorem handshake_returns_witness:
  "snd (run_handshake sample_proto 5 100 None None 0 [quiet_input 50, quiet_input 101]) \<noteq> None \<and>
   run_handshake sample_proto 5 100 None None 0 ([quiet_input 50, quiet_input 101] @ [quiet_input 102]) =
   run_handshake sample_proto 5 100 None None 0 [quiet_input 50, quiet_input 101]"
  by (rule handshake_returns [of "quiet_input 101"]) (simp_all add: quiet_input_def)

text \<open>Whatever the port answers and whatever fails, a handshake or probe writes nothing but copies
  of its one \<open>want_config\<close> request.\<close>

theorem handshake_writes_only_request:
  "list_all (\<lambda>w. w = frame_payload (want_config_request P config_id))
     (fst (run_handshake P config_id timeout probe first_write start is))"
  by (auto simp: list_all_iff dest: run_handshake_writes)

text \<open>C28: a port that sends nothing, noise, frames that are not Meshtastic messages, or an echo of the
  request is given up: the probe fails once the first-frame limit has passed, and by then it has
  repeated the request at most \<open>first_frame / resend\<close> times.\<close>

theorem probe_rejects_non_radio:
  assumes "list_all (no_reply P (want_config_request P config_id)) (hunt (received is))"
    and "i \<in> set is" and "start + pt_first_frame t < hi_now i"
  shows "(\<exists>e. snd (probe_port P config_id t None start is) = Some (Inl e)) \<and>
    (length (fst (probe_port P config_id t None start is)) - 1) * pt_resend t \<le> pt_first_frame t"
proof -
  let ?c = "hs_config_for P config_id start (pt_total t) (Some t)"
  let ?s = "hs_initial start (Some t)"
  have probe: "hc_probe ?c = Some t" and state: "\<not> hs_heard ?s" "hs_next_resend ?s = Some (start + pt_resend t)"
    and frames: "\<forall>f \<in> set (snd (feed_bytes (hs_reader ?s) (received is))). no_reply P (hc_request ?c) f"
    using assms(1)
    by (simp_all add: hs_config_for_def hs_initial_def list_all_iff FrameReader_new_def feed_bytes_reference)
  note loop = hs_loop_no_reply [OF probe state frames]
  let ?l = "hs_loop P ?c ?s is"
  have "snd ?l \<noteq> None" using loop assms(2,3) by (auto simp: hs_config_for_def)
  then obtain e where e: "snd ?l = Some (Inl e)"
    using loop by (metis option.exhaust sum.exhaust)
  have "length (fst ?l) * pt_resend t \<le> pt_first_frame t"
    using loop by (cases "fst ?l") (auto simp: hs_config_for_def)
  with e show ?thesis by (simp add: probe_port_def run_handshake_loop)
qed

theorem probe_rejects_non_radio_witness:
  "\<exists>e. snd (probe_port sample_proto 5 PROBE_TIMEOUTS None 0
      (map (byte_input 10) (frame_payload [9, 5]) @ [quiet_input 6001])) = Some (Inl e)"
proof -
  let ?is = "map (byte_input 10) (frame_payload [9, 5]) @ [quiet_input 6001]"
  have "hunt (frame_payload [9, 5]) = [[9, 5]]"
    using serial_link.arrives [of "[9, 5]"] feed_bytes_reference(1) [of "frame_payload [9, 5]"]
    by (simp add: FrameReader_new_def MAX_PACKET_SIZE_def)
  then have "list_all (no_reply sample_proto (want_config_request sample_proto 5)) (hunt (received ?is))"
    by (simp add: no_reply_def want_config_request_def)
  from probe_rejects_non_radio [OF this, of "quiet_input 6001" 0 PROBE_TIMEOUTS] show ?thesis
    by (simp add: quiet_input_def PROBE_TIMEOUTS_def)
qed

text \<open>\<open>wait_for_reboot\<close> reports a reboot exactly when a reboot message is in the bytes that arrive
  before the deadline, however they are split into reads, and returns \<open>false\<close> at the deadline
  otherwise.\<close>

theorem wait_for_reboot_spec:
  assumes "list_all (\<lambda>i. calm (snd i)) is"
  shows "wait_for_reboot P start timeout is =
    (let early = takeWhile (\<lambda>i. fst i < start + timeout) is in
     if list_ex (reboot_frame P) (hunt (data_of early)) then Some (Inr True)
     else if length early < length is then Some (Inr False) else None)"
  using wait_loop_spec [of "is" P "start + timeout" FrameReader_new] assms
  by (simp add: wait_for_reboot_def list_all_iff Let_def FrameReader_new_def feed_bytes_reference)

theorem wait_for_reboot_spec_witness:
  "wait_for_reboot sample_proto 0 100 [(0, Read_ok [0x94, 0xC3, 0]), (1, Read_err (timed_out ''read'')), (2, Read_ok [1, 3])]
     = Some (Inr True)"
proof -
  have "hunt [0x94, 0xC3, 0, 1, 3] = [[3]]"
    by (simp add: START1_def START2_def frame_len_eq MAX_PACKET_SIZE_def)
  then show ?thesis
    using wait_for_reboot_spec
      [of "[(0, Read_ok [0x94, 0xC3, 0]), (1, Read_err (timed_out ''read'')), (2, Read_ok [1, 3])]" sample_proto 0 100]
    by (simp add: calm_def data_of_def timed_out_def reboot_frame_def decode_frame_def)
qed

text \<open>Every channel key derived from the handshake belongs to a reported channel with settings,
  has a name that is not empty, and carries the hash of its own name and key.\<close>

theorem channel_keys_consistent:
  "list_all (\<lambda>ck. key_ok ck \<and> ck_name ck \<noteq> [] \<and>
     list_ex (\<lambda>ch. ch_settings ch \<noteq> None \<and> ck_index ck = ch_index ch) (ri_channels info))
   (channel_keys info)"
  by (simp only: list_all_iff list_ex_iff channel_keys_ok ball_simps) (blast dest: channel_keys_ok)

end
