(* ===== verification/Bridge.thy ===== *)
theory Bridge
  imports Framing Crypto Recent Udp Radio
begin

text \<open>
  Model of \<open>src/bridge.rs\<close> (except \<open>RecentPackets\<close>, which is theory \<open>Recent\<close>): the two packet handlers,
  packet encryption and decryption, the dispatch loop with its heartbeat, and the reader threads that
  feed it.  Handlers return the new bridge and the effects they cause.  Results of sending a datagram
  or writing to the port are only logged by the code, so an effect is the attempt.
\<close>

section \<open>Data\<close>

datatype ingress = MqttProxy | Phone

datatype bridge_event =
    SerialFrame bytes
  | UdpPacket bytes
  | SerialError io_error
  | UdpError io_error
  | Tick

datatype session_end = RadioRebooted | SerialLost io_error | UdpFailed io_error

record bridge_config =
  bc_multicast_addr :: ipv4
  bc_udp_port :: u16
  bc_ingress :: ingress
  bc_my_node_num :: u32

record bridge =
  br_config :: bridge_config
  br_recent :: recent_packets
  br_channels :: "channel_key list"

datatype effect = Send_udp datagram | Write_serial bytes

definition RECENT_PACKETS_CAPACITY :: nat where "RECENT_PACKETS_CAPACITY = 1024"
definition HEARTBEAT_INTERVAL :: nat where "HEARTBEAT_INTERVAL = 15000"
definition HEARTBEAT_NONCE_NODEINFO_PING :: u32 where "HEARTBEAT_NONCE_NODEINFO_PING = 1"
definition BROADCAST_ADDR :: u32 where "BROADCAST_ADDR = 0xFFFFFFFF"
definition MQTT_PROXY_GATEWAY_ID :: string where "MQTT_PROXY_GATEWAY_ID = ''!meshtastic-serial-udp''"

definition Bridge_new :: "bridge_config \<Rightarrow> channel_key list \<Rightarrow> bridge" where
  "Bridge_new config channels =
     \<lparr>br_config = config, br_recent = RecentPackets_new RECENT_PACKETS_CAPACITY, br_channels = channels\<rparr>"

section \<open>Packet encryption\<close>

definition encrypt_packet :: "'x proto \<Rightarrow> aes_crate \<Rightarrow> bridge \<Rightarrow> 'x mesh_packet \<Rightarrow> 'x mesh_packet" where
  "encrypt_packet P A b packet = (case mp_payload_variant packet of
     Some (Decoded data) \<Rightarrow>
       (let decoded_bytes = encode_data P data; channel_index = mp_channel packet in
        case find (\<lambda>c. ck_index c = channel_index) (br_channels b) of
          None \<Rightarrow> packet
        | Some ck \<Rightarrow>
            if ck_key ck = [] then packet
            else packet\<lparr>mp_payload_variant :=
                   Some (Encrypted (encrypt_aes_ctr A (ck_key ck) (mp_from packet) (mp_id packet) decoded_bytes)),
                   mp_channel := ck_hash ck\<rparr>)
   | _ \<Rightarrow> packet)"

fun try_channels ::
  "'x proto \<Rightarrow> aes_crate \<Rightarrow> 'x mesh_packet \<Rightarrow> bytes \<Rightarrow> channel_key list \<Rightarrow> 'x mesh_packet option" where
  "try_channels P A packet ciphertext [] = None"
| "try_channels P A packet ciphertext (ck # cks) =
     (if ck_hash ck \<noteq> mp_channel packet then try_channels P A packet ciphertext cks
      else if ck_key ck = [] then try_channels P A packet ciphertext cks
      else
        (let plaintext = decrypt_aes_ctr A (ck_key ck) (mp_from packet) (mp_id packet) ciphertext in
         case decode_data P plaintext of
           Some data \<Rightarrow> Some (packet\<lparr>mp_payload_variant := Some (Decoded data), mp_channel := ck_index ck\<rparr>)
         | None \<Rightarrow> try_channels P A packet ciphertext cks))"

text \<open>\<open>None\<close> is the result \<open>false\<close>, which leaves the packet as it was.\<close>

definition decrypt_packet :: "'x proto \<Rightarrow> aes_crate \<Rightarrow> bridge \<Rightarrow> 'x mesh_packet \<Rightarrow> 'x mesh_packet option" where
  "decrypt_packet P A b packet = (case mp_payload_variant packet of
     Some (Encrypted data) \<Rightarrow> try_channels P A packet data (br_channels b)
   | _ \<Rightarrow> Some packet)"

section \<open>From the radio to the LAN\<close>

definition handle_serial_frame ::
  "'x proto \<Rightarrow> aes_crate \<Rightarrow> bridge \<Rightarrow> bytes \<Rightarrow> bridge \<times> effect list \<times> bool" where
  "handle_serial_frame P A b payload = (case decode_frame P payload of
     Rebooted \<Rightarrow> (b, [], True)
   | Other \<Rightarrow> (b, [], False)
   | Packet packet \<Rightarrow>
       if mp_transport_mechanism packet = transport_multicast_udp P
          \<or> mp_transport_mechanism packet = transport_mqtt P
       then (b, [], False)
       else if mp_pki_encrypted packet then (b, [], False)
       else
         (let b' = b\<lparr>br_recent := fst (recent_insert (br_recent b) (mp_from packet) (mp_id packet))\<rparr>;
              packet' = encrypt_packet P A b' packet;
              data = encode_mesh_packet P packet'
          in (b', [Send_udp (send_multicast data (bc_multicast_addr (br_config b')) (bc_udp_port (br_config b')))],
              False)))"

section \<open>From the LAN to the radio\<close>

definition downlink_channel_id :: "bridge \<Rightarrow> 'x mesh_packet \<Rightarrow> string option" where
  "downlink_channel_id b packet = (case find (\<lambda>c. ck_hash c = mp_channel packet) (br_channels b) of
     Some ck \<Rightarrow> Some (ck_name ck)
   | None \<Rightarrow>
       if mp_pki_encrypted packet \<or> (mp_channel packet = 0 \<and> mp_to packet \<noteq> BROADCAST_ADDR)
       then Some ''PKI'' else None)"

definition is_encrypted :: "'x mesh_packet \<Rightarrow> bool" where
  "is_encrypted packet = (case mp_payload_variant packet of Some (Encrypted _) \<Rightarrow> True | _ \<Rightarrow> False)"

definition handle_udp_packet ::
  "'x proto \<Rightarrow> aes_crate \<Rightarrow> bridge \<Rightarrow> bytes \<Rightarrow> bridge \<times> effect list" where
  "handle_udp_packet P A b data = (case decode_packet P data of
     None \<Rightarrow> (b, [])
   | Some packet \<Rightarrow>
       if \<not> is_encrypted packet then (b, [])
       else if mp_from packet = 0 \<or> mp_from packet = bc_my_node_num (br_config b) then (b, [])
       else (case recent_insert (br_recent b) (mp_from packet) (mp_id packet) of
           (recent', False) \<Rightarrow> (b\<lparr>br_recent := recent'\<rparr>, [])
         | (recent', True) \<Rightarrow>
             (let b' = b\<lparr>br_recent := recent'\<rparr> in
              case bc_ingress (br_config b') of
                MqttProxy \<Rightarrow>
                  (case downlink_channel_id b' packet of
                     None \<Rightarrow> (b', [])
                   | Some channel_id \<Rightarrow>
                       (b', [Write_serial (write_mqtt_proxy P
                          \<lparr>se_packet = Some packet, se_channel_id = channel_id,
                           se_gateway_id = MQTT_PROXY_GATEWAY_ID\<rparr>)]))
              | Phone \<Rightarrow>
                  (case decrypt_packet P A b' packet of
                     None \<Rightarrow> (b', [])
                   | Some packet' \<Rightarrow>
                       (b', [Write_serial (write_packet P
                          (packet'\<lparr>mp_transport_mechanism := transport_multicast_udp P\<rparr>))])))))"

section \<open>The dispatch loop\<close>

definition next_nonce :: "u32 \<Rightarrow> u32" where
  "next_nonce n =
     (let n1 = n + 1 in if n1 = HEARTBEAT_NONCE_NODEINFO_PING then n1 + 1 else n1)"

definition heartbeat_frame :: "'x proto \<Rightarrow> u32 \<Rightarrow> bytes" where
  "heartbeat_frame P nonce = frame_payload (encode_to_radio P (To_heartbeat nonce))"

definition all_readers_gone :: session_end where
  "all_readers_gone = SerialLost (Io_error OtherKind ''all reader threads exited'')"

text \<open>The events are those received from the channel until every sender is gone.\<close>

fun run_loop ::
  "'x proto \<Rightarrow> aes_crate \<Rightarrow> bridge \<Rightarrow> u32 \<Rightarrow> bridge_event list \<Rightarrow> bridge \<times> effect list \<times> session_end" where
  "run_loop P A b nonce [] = (b, [], all_readers_gone)"
| "run_loop P A b nonce (SerialFrame payload # evs) =
     (case handle_serial_frame P A b payload of
        (b', eff, True) \<Rightarrow> (b', eff, RadioRebooted)
      | (b', eff, False) \<Rightarrow>
          (case run_loop P A b' nonce evs of (b'', eff', end') \<Rightarrow> (b'', eff @ eff', end')))"
| "run_loop P A b nonce (UdpPacket data # evs) =
     (case handle_udp_packet P A b data of (b', eff) \<Rightarrow>
        (case run_loop P A b' nonce evs of (b'', eff', end') \<Rightarrow> (b'', eff @ eff', end')))"
| "run_loop P A b nonce (SerialError e # evs) = (b, [], SerialLost e)"
| "run_loop P A b nonce (UdpError e # evs) = (b, [], UdpFailed e)"
| "run_loop P A b nonce (Tick # evs) =
     (let nonce' = next_nonce nonce in
      case run_loop P A b nonce' evs of (b', eff', end') \<Rightarrow>
        (b', Write_serial (heartbeat_frame P nonce') # eff', end'))"

text \<open>
  \<open>setup\<close> is the first failure among cloning the socket and the port, setting their timeouts and
  spawning the threads.
\<close>

definition bridge_run ::
  "'x proto \<Rightarrow> aes_crate \<Rightarrow> io_error option \<Rightarrow> bridge \<Rightarrow> bridge_event list \<Rightarrow> effect list \<times> session_end io_result" where
  "bridge_run P A setup b evs = (case setup of
     Some e \<Rightarrow> ([], Inl e)
   | None \<Rightarrow> (case run_loop P A b HEARTBEAT_NONCE_NODEINFO_PING evs of (b', eff, end') \<Rightarrow> (eff, Inr end')))"

section \<open>The reader threads\<close>

text \<open>Each iteration sees the stop flag and the outcome of its blocking call.\<close>

fun serial_reader :: "frame_reader \<Rightarrow> (bool \<times> read_outcome) list \<Rightarrow> bridge_event list" where
  "serial_reader reader [] = []"
| "serial_reader reader ((stop, outcome) # is) =
     (if stop then []
      else (case outcome of
          Read_ok [] \<Rightarrow> [SerialError (Io_error UnexpectedEof ''serial port closed'')]
        | Read_ok data \<Rightarrow>
            (case feed_bytes reader data of (reader', frames) \<Rightarrow>
               map SerialFrame frames @ serial_reader reader' is)
        | Read_err e \<Rightarrow>
            if error_kind e = TimedOut then serial_reader reader is else [SerialError e]))"

text \<open>A datagram longer than the 600-byte buffer is cut off by \<open>recv_from\<close>.\<close>

fun udp_reader :: "(bool \<times> read_outcome) list \<Rightarrow> bridge_event list" where
  "udp_reader [] = []"
| "udp_reader ((stop, outcome) # is) =
     (if stop then []
      else (case outcome of
          Read_ok data \<Rightarrow> UdpPacket (take 600 data) # udp_reader is
        | Read_err e \<Rightarrow>
            if error_kind e = WouldBlock \<or> error_kind e = TimedOut then udp_reader is else [UdpError e]))"

text \<open>\<open>now\<close> is the clock after the 250 ms sleep.\<close>

fun heartbeat_timer :: "nat \<Rightarrow> (bool \<times> nat) list \<Rightarrow> bridge_event list" where
  "heartbeat_timer next_tick [] = []"
| "heartbeat_timer next_tick ((stop, now) # is) =
     (if stop then []
      else if next_tick \<le> now then Tick # heartbeat_timer (next_tick + HEARTBEAT_INTERVAL) is
      else heartbeat_timer next_tick is)"

section \<open>One packet event as a step\<close>

text \<open>
  The two packet handlers as one function.  The events that the dispatch loop handles itself leave the bridge alone here:
  a tick writes a heartbeat, which is part of \<open>run_loop\<close> and of its step \<open>loop_step\<close> (theory \<open>Bridge_Spec\<close>).
\<close>

definition bridge_step :: "'x proto \<Rightarrow> aes_crate \<Rightarrow> bridge \<Rightarrow> bridge_event \<Rightarrow> bridge \<times> effect list" where
  "bridge_step P A b ev = (case ev of
     SerialFrame payload \<Rightarrow> (case handle_serial_frame P A b payload of (b', eff, _) \<Rightarrow> (b', eff))
   | UdpPacket data \<Rightarrow> handle_udp_packet P A b data
   | _ \<Rightarrow> (b, []))"

text \<open>The packet an event enters into the memory of recent packets.\<close>

definition lan_originated :: "'x proto \<Rightarrow> 'x mesh_packet \<Rightarrow> bool" where
  "lan_originated P p \<longleftrightarrow> mp_transport_mechanism p = transport_multicast_udp P \<or>
     mp_transport_mechanism p = transport_mqtt P"

definition packet_key :: "'x mesh_packet \<Rightarrow> packet_key" where
  "packet_key p = (mp_from p, mp_id p)"

definition event_key :: "'x proto \<Rightarrow> bridge \<Rightarrow> bridge_event \<Rightarrow> packet_key option" where
  "event_key P b ev = (case ev of
     SerialFrame payload \<Rightarrow>
       (case decode_frame P payload of
          Packet p \<Rightarrow> if lan_originated P p \<or> mp_pki_encrypted p then None else Some (packet_key p)
        | _ \<Rightarrow> None)
   | UdpPacket data \<Rightarrow>
       (case decode_packet P data of
          Some p \<Rightarrow>
            if \<not> is_encrypted p \<or> mp_from p = 0 \<or> mp_from p = bc_my_node_num (br_config b)
            then None else Some (packet_key p)
        | None \<Rightarrow> None)
   | _ \<Rightarrow> None)"

definition remember :: "recent_packets \<Rightarrow> packet_key option \<Rightarrow> recent_packets" where
  "remember r k = (case k of None \<Rightarrow> r | Some k \<Rightarrow> fst (recent_insert r (fst k) (snd k)))"

lemma encrypt_packet_recent [simp]:
  "encrypt_packet P A (b\<lparr>br_recent := r\<rparr>) p = encrypt_packet P A b p"
  by (simp add: encrypt_packet_def split: option.split packet_payload.split)

lemma decrypt_packet_recent [simp]:
  "decrypt_packet P A (b\<lparr>br_recent := r\<rparr>) p = decrypt_packet P A b p"
  by (simp add: decrypt_packet_def split: option.split packet_payload.split)

lemma downlink_channel_id_recent [simp]:
  "downlink_channel_id (b\<lparr>br_recent := r\<rparr>) p = downlink_channel_id b p"
  by (simp add: downlink_channel_id_def)

lemma bridge_step_serial:
  "bridge_step P A b (SerialFrame payload) =
     (case decode_frame P payload of
        Packet p \<Rightarrow>
          (if lan_originated P p \<or> mp_pki_encrypted p then (b, [])
           else (b\<lparr>br_recent := fst (recent_insert (br_recent b) (mp_from p) (mp_id p))\<rparr>,
                 [Send_udp (send_multicast (encode_mesh_packet P (encrypt_packet P A b p))
                    (bc_multicast_addr (br_config b)) (bc_udp_port (br_config b)))]))
      | _ \<Rightarrow> (b, []))"
  by (simp add: bridge_step_def handle_serial_frame_def lan_originated_def Let_def
      split: radio_frame.split)

lemma bridge_step_udp: "bridge_step P A b (UdpPacket data) = handle_udp_packet P A b data"
  by (simp add: bridge_step_def)

lemmas step_simps [handler_simps] = bridge_step_serial bridge_step_udp

lemma handle_udp_packet_state:
  "fst (handle_udp_packet P A b data) = b\<lparr>br_recent := remember (br_recent b) (event_key P b (UdpPacket data))\<rparr>"
  by (simp add: handle_udp_packet_def remember_def event_key_def packet_key_def Let_def
       split: option.split bool.split ingress.split prod.split)

lemma bridge_step_state:
  "fst (bridge_step P A b ev) = b\<lparr>br_recent := remember (br_recent b) (event_key P b ev)\<rparr>"
proof (cases ev)
  case (SerialFrame payload)
  then show ?thesis
    by (simp add: handler_simps event_key_def remember_def packet_key_def split: radio_frame.split)
next
  case (UdpPacket data)
  then show ?thesis by (simp add: handler_simps handle_udp_packet_state)
qed (simp_all add: bridge_step_def event_key_def remember_def)

section \<open>Invariant\<close>

definition bridge_inv :: "bridge_config \<Rightarrow> channel_key list \<Rightarrow> bridge \<Rightarrow> bool" where
  "bridge_inv config channels b \<longleftrightarrow> br_config b = config \<and> br_channels b = channels \<and>
     recent_ok (br_recent b) \<and> capacity (br_recent b) = RECENT_PACKETS_CAPACITY"

lemma bridge_inv_new [simp]: "bridge_inv config channels (Bridge_new config channels)"
  by (simp add: bridge_inv_def Bridge_new_def, simp add: RecentPackets_new_def)

lemma remember_ok: "recent_ok r \<Longrightarrow> recent_ok (remember r k) \<and> capacity (remember r k) = capacity r"
  by (simp add: remember_def recent_insert_ok split: option.split)

interpretation bridge_machine: event_machine "bridge_step P A" "bridge_inv config channels" for P A config channels
proof unfold_locales
  fix b ev
  assume "bridge_inv config channels b"
  then show "bridge_inv config channels (fst (bridge_step P A b ev))"
    using remember_ok by (auto simp: bridge_step_state bridge_inv_def)
qed

text \<open>Over a run the memory grows by at most one insertion per event.\<close>

lemma run_recent:
  "\<exists>ks. length ks \<le> length evs \<and>
     br_recent (fst (run_steps (bridge_step P A) b evs)) = recent_window.insert_all (br_recent b) ks"
proof (induction evs arbitrary: b)
  case Nil
  show ?case by simp
next
  case (Cons ev evs)
  let ?b = "fst (bridge_step P A b ev)"
  obtain ks where ks: "length ks \<le> length evs"
    "br_recent (fst (run_steps (bridge_step P A) ?b evs)) = recent_window.insert_all (br_recent ?b) ks"
    using Cons.IH by blast
  show ?case
  proof (cases "event_key P b ev")
    case None
    then have "br_recent ?b = br_recent b" by (simp add: bridge_step_state remember_def)
    with ks show ?thesis
      by (intro exI [of _ ks]) (simp add: run_steps_fst_Cons del: run_steps.simps)
  next
    case (Some k)
    then have "br_recent ?b = fst (recent_insert (br_recent b) (fst k) (snd k))"
      by (simp add: bridge_step_state remember_def)
    with ks show ?thesis
      by (intro exI [of _ "k # ks"]) (simp add: run_steps_fst_Cons del: run_steps.simps)
  qed
qed

lemma handle_udp_packet_duplicate:
  assumes "recent_ok (br_recent b)" and "decode_packet P data = Some q"
    and "packet_key q \<in> set (order (br_recent b))"
  shows "snd (handle_udp_packet P A b data) = []"
  using recent_insert_reject [OF assms(1,3)] assms(2)
  by (simp add: handle_udp_packet_def packet_key_def)

end
