(* ===== verification/Bridge_Spec.thy ===== *)
theory Bridge_Spec
  imports Bridge
begin

text \<open>
  What the bridge of theory \<open>Bridge\<close> promises: which packets cross it in each direction and in which
  form, that a packet does not come back, how the dispatch loop ends, and what its threads feed it.
\<close>

section \<open>Searching the channels\<close>

lemma try_channels_find:
  "try_channels P A packet c cks =
     (case find (\<lambda>ck. ck_hash ck = mp_channel packet \<and> ck_key ck \<noteq> [] \<and>
             decode_data P (decrypt_aes_ctr A (ck_key ck) (mp_from packet) (mp_id packet) c) \<noteq> None) cks of
        None \<Rightarrow> None
      | Some ck \<Rightarrow> Some (packet\<lparr>mp_payload_variant := Some (Decoded (the (decode_data P
            (decrypt_aes_ctr A (ck_key ck) (mp_from packet) (mp_id packet) c)))), mp_channel := ck_index ck\<rparr>))"
  by (induction cks) (auto simp: Let_def split: option.split)

lemma try_channels_None_iff:
  "try_channels P A packet c cks \<noteq> None \<longleftrightarrow>
     (\<exists>ck \<in> set cks. ck_hash ck = mp_channel packet \<and> ck_key ck \<noteq> [] \<and>
        decode_data P (decrypt_aes_ctr A (ck_key ck) (mp_from packet) (mp_id packet) c) \<noteq> None)"
  by (induction cks) (auto simp: Let_def split: option.split)

lemma try_channels_first:
  assumes "find (\<lambda>ck. ck_hash ck = mp_channel packet \<and> ck_key ck \<noteq> []) cks = Some ck"
    and "decode_data P (decrypt_aes_ctr A (ck_key ck) (mp_from packet) (mp_id packet) c) = Some d"
  shows "try_channels P A packet c cks =
    Some (packet\<lparr>mp_payload_variant := Some (Decoded d), mp_channel := ck_index ck\<rparr>)"
  using assms(1)
proof (induction cks)
  case Nil
  then show ?case by simp
next
  case (Cons k cks)
  then show ?case
    using assms(2) by (cases "k = ck") (auto simp: Let_def split: if_splits)
qed

lemma encrypt_packet_decoded:
  assumes "mp_payload_variant p = Some (Decoded d)"
    and "find (\<lambda>c. ck_index c = mp_channel p) (br_channels b) = Some ck" and "ck_key ck \<noteq> []"
  shows "encrypt_packet P A b p = p\<lparr>mp_payload_variant :=
      Some (Encrypted (encrypt_aes_ctr A (ck_key ck) (mp_from p) (mp_id p) (encode_data P d))),
      mp_channel := ck_hash ck\<rparr>"
  using assms by (simp add: encrypt_packet_def)

lemma encrypt_packet_keeps [simp]:
  "mp_from (encrypt_packet P A b p) = mp_from p"
  "mp_id (encrypt_packet P A b p) = mp_id p"
  "mp_to (encrypt_packet P A b p) = mp_to p"
  "mp_pki_encrypted (encrypt_packet P A b p) = mp_pki_encrypted p"
  by (simp_all add: encrypt_packet_def Let_def split: option.split packet_payload.split)

lemma decrypt_encrypted_packet:
  assumes "mp_payload_variant p = Some (Decoded d)"
    and "find (\<lambda>c. ck_index c = mp_channel p) (br_channels b) = Some ck" and "ck_key ck \<noteq> []"
    and "find (\<lambda>c. ck_hash c = ck_hash ck \<and> ck_key c \<noteq> []) (br_channels b') = Some ck'"
    and "ck_key ck' = ck_key ck"
    and "decode_data P (encode_data P d) = Some d"
  shows "decrypt_packet P A b' (encrypt_packet P A b p) = Some (p\<lparr>mp_channel := ck_index ck'\<rparr>)"
proof -
  let ?q = "encrypt_packet P A b p"
  let ?c = "encrypt_aes_ctr A (ck_key ck) (mp_from p) (mp_id p) (encode_data P d)"
  have q: "?q = p\<lparr>mp_payload_variant := Some (Encrypted ?c), mp_channel := ck_hash ck\<rparr>"
    using assms(1-3) by (rule encrypt_packet_decoded)
  have "try_channels P A ?q ?c (br_channels b') =
      Some (?q\<lparr>mp_payload_variant := Some (Decoded d), mp_channel := ck_index ck'\<rparr>)"
    using assms(4-6) by (intro try_channels_first) (simp_all add: q aes_ctr.dec_enc)
  moreover have "?q\<lparr>mp_payload_variant := Some (Decoded d), mp_channel := ck_index ck'\<rparr> = p\<lparr>mp_channel := ck_index ck'\<rparr>"
    unfolding q using assms(1) by (cases p) simp
  ultimately show ?thesis by (simp add: decrypt_packet_def q)
qed

section \<open>Samples\<close>

definition sample_channel :: "u32 \<Rightarrow> channel_key" where
  "sample_channel i = \<lparr>ck_index = i, ck_name = ''LongFast'', ck_key = DEFAULT_PSK, ck_hash = 8\<rparr>"

definition sample_bridge :: "ingress \<Rightarrow> u32 \<Rightarrow> u32 \<Rightarrow> bridge" where
  "sample_bridge ing node i = Bridge_new
     \<lparr>bc_multicast_addr = 0xE0000045, bc_udp_port = 4403, bc_ingress = ing, bc_my_node_num = node\<rparr> [sample_channel i]"

lemma sample_bridge_simps [simp]:
  "br_channels (sample_bridge ing node i) = [sample_channel i]"
  "br_recent (sample_bridge ing node i) = RecentPackets_new RECENT_PACKETS_CAPACITY"
  "bc_ingress (br_config (sample_bridge ing node i)) = ing"
  "bc_my_node_num (br_config (sample_bridge ing node i)) = node"
  "bc_multicast_addr (br_config (sample_bridge ing node i)) = 0xE0000045"
  "bc_udp_port (br_config (sample_bridge ing node i)) = 4403"
  by (simp_all add: sample_bridge_def Bridge_new_def)

lemma sample_channel_simps [simp]:
  "ck_index (sample_channel i) = i" "ck_name (sample_channel i) = ''LongFast''"
  "ck_key (sample_channel i) = DEFAULT_PSK" "ck_hash (sample_channel i) = 8"
  by (simp_all add: sample_channel_def)

lemma DEFAULT_PSK_nonempty [simp]: "DEFAULT_PSK \<noteq> []"
  by (simp add: DEFAULT_PSK_def)

lemma sample_bridge_inv:
  "bridge_inv (br_config (sample_bridge ing node i)) [sample_channel i] (sample_bridge ing node i)"
  by (simp add: sample_bridge_def Bridge_new_def [symmetric]) (simp add: Bridge_new_def bridge_inv_def, simp add: RecentPackets_new_def recent_ok_def)

text \<open>A text message from node 17 to all, with packet id 42, as the radio reports it on channel 0.\<close>

definition hello :: "unit mesh_packet" where
  "hello = sample_packet 17 255 42 0 0 (Some (Decoded (sample_data [104, 105])))"

section \<open>Crossing the bridge\<close>

text \<open>C22: encryption by one bridge and decryption by another give back the radio's packet, on the second
  bridge's index of the channel, when the second bridge's first keyed channel with that hash has the same
  key.\<close>

theorem packet_encryption_roundtrip:
  assumes "mp_payload_variant p = Some (Decoded d)"
    and "find (\<lambda>c. ck_index c = mp_channel p) (br_channels b) = Some ck" and "ck_key ck \<noteq> []"
    and "find (\<lambda>c. ck_hash c = ck_hash ck \<and> ck_key c \<noteq> []) (br_channels b') = Some ck'"
    and "ck_key ck' = ck_key ck"
    and "decode_data P (encode_data P d) = Some d"
  shows "is_encrypted (encrypt_packet P A b p) \<and>
    decrypt_packet P A b' (encrypt_packet P A b p) = Some (p\<lparr>mp_channel := ck_index ck'\<rparr>)"
proof
  show "is_encrypted (encrypt_packet P A b p)"
    by (simp add: is_encrypted_def encrypt_packet_decoded [OF assms(1-3)])
qed (rule decrypt_encrypted_packet [OF assms])

lemma sample_data_roundtrip: "decode_data sample_proto (encode_data sample_proto (sample_data bs)) = Some (sample_data bs)"
  by (simp add: sample_data_def)

theorem packet_encryption_roundtrip_witness:
  "decrypt_packet sample_proto sample_aes (sample_bridge Phone 7 3)
     (encrypt_packet sample_proto sample_aes (sample_bridge Phone 9 0) hello) = Some (hello\<lparr>mp_channel := 3\<rparr>)"
  using packet_encryption_roundtrip [of hello "sample_data [104, 105]" "sample_bridge Phone 9 0" "sample_channel 0"
      "sample_bridge Phone 7 3" "sample_channel 3" sample_proto sample_aes] sample_data_roundtrip
  by (simp add: hello_def)

text \<open>What happens to a frame from the radio depends on the packet alone, not on the memory of
  recent packets: a packet that neither came from the LAN or MQTT nor is PKI-encrypted is sent to the
  multicast group as one datagram, encrypted for its channel, and nothing else is sent or written.\<close>

theorem serial_forwarding_exact:
  "snd (bridge_step P A b (SerialFrame payload)) =
     (case decode_frame P payload of
        Packet p \<Rightarrow>
          if mp_transport_mechanism p = transport_multicast_udp P \<or> mp_transport_mechanism p = transport_mqtt P
             \<or> mp_pki_encrypted p
          then []
          else [Send_udp \<lparr>dg_data = encode_mesh_packet P (encrypt_packet P A b p),
                  dg_addr = bc_multicast_addr (br_config b), dg_port = bc_udp_port (br_config b)\<rparr>]
      | _ \<Rightarrow> []) \<and>
   snd (bridge_step P A (b\<lparr>br_recent := r\<rparr>) (SerialFrame payload)) = snd (bridge_step P A b (SerialFrame payload))"
  by (simp add: handler_simps lan_originated_def send_multicast_def split: radio_frame.split)

text \<open>The reasons to deliver a LAN packet to the radio.\<close>

definition deliverable :: "'x proto \<Rightarrow> aes_crate \<Rightarrow> bridge \<Rightarrow> 'x mesh_packet \<Rightarrow> bool" where
  "deliverable P A b q \<longleftrightarrow>
     (\<exists>c. mp_payload_variant q = Some (Encrypted c) \<and>
       mp_from q \<noteq> 0 \<and> mp_from q \<noteq> bc_my_node_num (br_config b) \<and>
       packet_key q \<notin> set (order (br_recent b)) \<and>
       (case bc_ingress (br_config b) of
          MqttProxy \<Rightarrow> (\<exists>ck \<in> set (br_channels b). ck_hash ck = mp_channel q) \<or> mp_pki_encrypted q \<or>
            (mp_channel q = 0 \<and> mp_to q \<noteq> BROADCAST_ADDR)
        | Phone \<Rightarrow> (\<exists>ck \<in> set (br_channels b). ck_hash ck = mp_channel q \<and> ck_key ck \<noteq> [] \<and>
            decode_data P (decrypt_aes_ctr A (ck_key ck) (mp_from q) (mp_id q) c) \<noteq> None)))"

lemma downlink_channel_id_None_iff:
  "downlink_channel_id b q \<noteq> None \<longleftrightarrow> (\<exists>ck \<in> set (br_channels b). ck_hash ck = mp_channel q) \<or>
     mp_pki_encrypted q \<or> (mp_channel q = 0 \<and> mp_to q \<noteq> BROADCAST_ADDR)"
proof (cases "find (\<lambda>c. ck_hash c = mp_channel q) (br_channels b)")
  case None
  then have "\<forall>ck \<in> set (br_channels b). ck_hash ck \<noteq> mp_channel q" by (simp add: find_None_iff)
  then show ?thesis unfolding downlink_channel_id_def None by auto
next
  case (Some ck)
  then show ?thesis by (auto simp: downlink_channel_id_def dest: find_SomeD)
qed

lemma handle_udp_packet_fresh:
  assumes "recent_ok (br_recent b)" and "decode_packet P data = Some q" and "is_encrypted q"
    and "mp_from q \<noteq> 0" and "mp_from q \<noteq> bc_my_node_num (br_config b)"
    and "packet_key q \<notin> set (order (br_recent b))"
  shows "snd (handle_udp_packet P A b data) =
    (case bc_ingress (br_config b) of
       MqttProxy \<Rightarrow> (case downlink_channel_id b q of None \<Rightarrow> []
         | Some channel_id \<Rightarrow> [Write_serial (write_mqtt_proxy P \<lparr>se_packet = Some q, se_channel_id = channel_id,
             se_gateway_id = MQTT_PROXY_GATEWAY_ID\<rparr>)])
     | Phone \<Rightarrow> (case decrypt_packet P A b q of None \<Rightarrow> []
         | Some q' \<Rightarrow> [Write_serial (write_packet P (q'\<lparr>mp_transport_mechanism := transport_multicast_udp P\<rparr>))]))"
proof -
  obtain r' where "recent_insert (br_recent b) (mp_from q) (mp_id q) = (r', True)"
    using recent_insert_accept [OF assms(1,6)] by (auto simp: packet_key_def)
  with assms show ?thesis
    by (simp add: handle_udp_packet_def Let_def split: ingress.split option.split)
qed

text \<open>C8: a datagram from the LAN leads to a write to the radio exactly when it decodes to an encrypted
  packet of another node that is not in the memory of recent packets and that the ingress can
  hand over (MQTT proxy: a channel hash or PKI; phone: a keyed channel that decrypts it).\<close>

theorem udp_forwarding_exact:
  assumes "bridge_inv config channels b"
  shows "snd (bridge_step P A b (UdpPacket data)) \<noteq> [] \<longleftrightarrow>
    (\<exists>q. decode_packet P data = Some q \<and> deliverable P A b q)"
proof (cases "decode_packet P data")
  case None
  then show ?thesis by (simp add: handler_simps handle_udp_packet_def)
next
  case (Some q)
  have ok: "recent_ok (br_recent b)" using assms by (simp add: bridge_inv_def)
  consider (fresh) "is_encrypted q" "mp_from q \<noteq> 0" "mp_from q \<noteq> bc_my_node_num (br_config b)"
      "packet_key q \<notin> set (order (br_recent b))"
    | (dup) "packet_key q \<in> set (order (br_recent b))"
    | (bad) "\<not> is_encrypted q \<or> mp_from q = 0 \<or> mp_from q = bc_my_node_num (br_config b)"
    by blast
  then show ?thesis
  proof cases
    case fresh
    then obtain c where c: "mp_payload_variant q = Some (Encrypted c)"
      by (auto simp: is_encrypted_def split: option.splits packet_payload.splits)
    from handle_udp_packet_fresh [OF ok Some fresh]
    have "snd (bridge_step P A b (UdpPacket data)) \<noteq> [] \<longleftrightarrow>
        (case bc_ingress (br_config b) of MqttProxy \<Rightarrow> downlink_channel_id b q \<noteq> None
         | Phone \<Rightarrow> decrypt_packet P A b q \<noteq> None)"
      by (simp add: handler_simps split: ingress.split option.split)
    with fresh c Some show ?thesis
      using try_channels_None_iff [of P A q c "br_channels b"] downlink_channel_id_None_iff [of b q]
      by (simp add: deliverable_def decrypt_packet_def split: ingress.split)
  next
    case dup
    with Some show ?thesis
      using handle_udp_packet_duplicate [OF ok Some dup] by (simp add: handler_simps deliverable_def)
  next
    case bad
    with Some show ?thesis
      by (auto simp: handler_simps deliverable_def handle_udp_packet_def is_encrypted_def split: option.splits packet_payload.splits)
  qed
qed

theorem udp_forwarding_exact_witness:
  "snd (bridge_step sample_proto sample_aes (sample_bridge MqttProxy 9 0) (UdpPacket [17, 255, 42, 8, 0, 2, 77])) \<noteq> []"
proof -
  have "deliverable sample_proto sample_aes (sample_bridge MqttProxy 9 0) (sample_packet 17 255 42 8 0 (Some (Encrypted [77])))"
    by (simp add: deliverable_def RecentPackets_new_def)
  then show ?thesis
    using udp_forwarding_exact [OF sample_bridge_inv, of sample_proto sample_aes MqttProxy 9 0 "[17, 255, 42, 8, 0, 2, 77]"]
    by (simp add: decode_packet_def)
qed

text \<open>C21: the MQTT proxy ingress hands a deliverable packet to the radio unchanged, still encrypted, in
  one envelope whose channel id is the name of the first channel with the packet's hash, or \<open>PKI\<close> if
  there is none, and remembers the packet.\<close>

theorem mqtt_proxy_delivers_unchanged:
  assumes "bridge_inv config channels b" and "bc_ingress config = MqttProxy"
    and "decode_packet P data = Some q" and "deliverable P A b q"
  shows "snd (bridge_step P A b (UdpPacket data)) =
      [Write_serial (write_mqtt_proxy P \<lparr>se_packet = Some q,
         se_channel_id = (case find (\<lambda>c. ck_hash c = mp_channel q) channels of Some ck \<Rightarrow> ck_name ck | None \<Rightarrow> ''PKI''),
         se_gateway_id = MQTT_PROXY_GATEWAY_ID\<rparr>)] \<and>
    packet_key q \<in> set (order (br_recent (fst (bridge_step P A b (UdpPacket data)))))"
proof
  have b: "recent_ok (br_recent b)" "br_config b = config" "br_channels b = channels"
    using assms(1) by (simp_all add: bridge_inv_def)
  have q: "is_encrypted q" "mp_from q \<noteq> 0" "mp_from q \<noteq> bc_my_node_num (br_config b)"
    "packet_key q \<notin> set (order (br_recent b))"
    using assms(4) by (auto simp: deliverable_def is_encrypted_def)
  have "downlink_channel_id b q \<noteq> None"
    using assms(2,4) b(2) unfolding downlink_channel_id_None_iff by (auto simp: deliverable_def)
  with handle_udp_packet_fresh [OF b(1) assms(3) q(1-4), of A]
  show "snd (bridge_step P A b (UdpPacket data)) =
      [Write_serial (write_mqtt_proxy P \<lparr>se_packet = Some q,
         se_channel_id = (case find (\<lambda>c. ck_hash c = mp_channel q) channels of Some ck \<Rightarrow> ck_name ck | None \<Rightarrow> ''PKI''),
         se_gateway_id = MQTT_PROXY_GATEWAY_ID\<rparr>)]"
    by (auto simp: handler_simps assms(2) b(2,3) downlink_channel_id_def split: option.splits if_splits)
  have "event_key P b (UdpPacket data) = Some (packet_key q)"
    using q(1-3) assms(3) by (simp add: event_key_def)
  then show "packet_key q \<in> set (order (br_recent (fst (bridge_step P A b (UdpPacket data)))))"
    using recent_window.inserted_present [OF b(1)] by (simp add: bridge_step_state remember_def)
qed

theorem mqtt_proxy_delivers_unchanged_witness:
  "snd (bridge_step sample_proto sample_aes (sample_bridge MqttProxy 9 0) (UdpPacket [17, 255, 42, 8, 0, 2, 77])) =
     [Write_serial (write_mqtt_proxy sample_proto \<lparr>se_packet = Some (sample_packet 17 255 42 8 0 (Some (Encrypted [77]))),
        se_channel_id = ''LongFast'', se_gateway_id = ''!meshtastic-serial-udp''\<rparr>)]"
proof -
  let ?q = "sample_packet 17 255 42 8 0 (Some (Encrypted [77]))"
  have "deliverable sample_proto sample_aes (sample_bridge MqttProxy 9 0) ?q"
    by (simp add: deliverable_def RecentPackets_new_def)
  then show ?thesis
    using mqtt_proxy_delivers_unchanged [OF sample_bridge_inv, of MqttProxy 9 0 sample_proto "[17, 255, 42, 8, 0, 2, 77]" ?q sample_aes]
    by (simp add: decode_packet_def MQTT_PROXY_GATEWAY_ID_def)
qed

section \<open>No packet comes back\<close>

lemma entered_key_kept:
  assumes "bridge_inv config channels b"
    and "event_key P b ev = Some k" and "k \<notin> set (order (br_recent b))"
    and "length evs < RECENT_PACKETS_CAPACITY"
  shows "k \<in> set (order (br_recent (fst (run_steps (bridge_step P A) (fst (bridge_step P A b ev)) evs))))"
proof -
  have ok: "recent_ok (br_recent b)" and win: "window_size (br_recent b) = RECENT_PACKETS_CAPACITY"
    using assms(1) by (simp_all add: bridge_inv_def window_size_def RECENT_PACKETS_CAPACITY_def)
  obtain ks where ks: "length ks \<le> length evs"
    "br_recent (fst (run_steps (bridge_step P A) (fst (bridge_step P A b ev)) evs)) =
       recent_window.insert_all (br_recent (fst (bridge_step P A b ev))) ks"
    using run_recent by blast
  have "snd (recent_insert (br_recent b) (fst k) (snd k))"
    using recent_window.accepted_iff [OF ok] assms(3) by blast
  then show ?thesis
    using recent_window.retained [OF ok, of k ks] ks assms(2,4) win
    by (simp add: bridge_step_state remember_def)
qed

text \<open>C2: a packet that entered the memory, forwarded in either direction, is not written to the
  radio again when the LAN repeats it, in whatever form, within the next 1023 events.\<close>

theorem forwarded_packet_not_echoed:
  assumes "bridge_inv config channels b"
    and "event_key P b ev = Some (packet_key q)" and "packet_key q \<notin> set (order (br_recent b))"
    and "length evs < RECENT_PACKETS_CAPACITY"
    and "decode_packet P data = Some q"
  shows "snd (bridge_step P A (fst (run_steps (bridge_step P A) (fst (bridge_step P A b ev)) evs)) (UdpPacket data)) = []"
proof -
  have "bridge_inv config channels (fst (run_steps (bridge_step P A) (fst (bridge_step P A b ev)) evs))"
    by (intro bridge_machine.run_keeps bridge_machine.keeps assms(1))
  with entered_key_kept [OF assms(1-4), of A] show ?thesis
    using handle_udp_packet_duplicate [OF _ assms(5)] by (simp add: handler_simps bridge_inv_def)
qed

theorem forwarded_packet_not_echoed_witness:
  "snd (bridge_step sample_proto sample_aes
     (fst (run_steps (bridge_step sample_proto sample_aes)
        (fst (bridge_step sample_proto sample_aes (sample_bridge MqttProxy 9 0)
           (SerialFrame [4, 17, 255, 42, 0, 0, 1, 104, 105])))
        [Tick, UdpPacket [18, 255, 42, 8, 0, 2, 77]]))
     (UdpPacket [17, 255, 42, 8, 0, 2, 77])) = []"
proof (rule forwarded_packet_not_echoed [OF sample_bridge_inv])
  show "event_key sample_proto (sample_bridge MqttProxy 9 0) (SerialFrame [4, 17, 255, 42, 0, 0, 1, 104, 105])
      = Some (packet_key (sample_packet 17 255 42 8 0 (Some (Encrypted [77]))))"
    by (simp add: event_key_def decode_frame_def lan_originated_def packet_key_def)
qed (simp_all add: RecentPackets_new_def RECENT_PACKETS_CAPACITY_def decode_packet_def)

text \<open>Over every run of the bridge, from every invariant state, what is sent to the LAN was reported by
  the radio and did not come from the LAN or MQTT, and what is written to the radio was received from the LAN,
  encrypted and from another node.  In particular a packet delivered with the LAN stamp that the radio
  reports back with the stamp is never sent again.\<close>

theorem effects_have_an_origin:
  assumes "bridge_inv config channels b" and "eff \<in> set (snd (run_steps (bridge_step P A) b evs))"
  shows "case eff of
      Send_udp dg \<Rightarrow> (\<exists>payload p. SerialFrame payload \<in> set evs \<and> decode_frame P payload = Packet p \<and>
         \<not> lan_originated P p \<and> \<not> mp_pki_encrypted p \<and>
         dg = \<lparr>dg_data = encode_mesh_packet P (encrypt_packet P A b p),
               dg_addr = bc_multicast_addr config, dg_port = bc_udp_port config\<rparr>)
    | Write_serial frame \<Rightarrow> (\<exists>data q. UdpPacket data \<in> set evs \<and> decode_packet P data = Some q \<and>
         is_encrypted q \<and> mp_from q \<noteq> 0 \<and> mp_from q \<noteq> bc_my_node_num config)"
proof -
  obtain b' ev where inv: "bridge_inv config channels b'" and ev: "ev \<in> set evs"
    and out: "eff \<in> set (snd (bridge_step P A b' ev))"
    using bridge_machine.run_output_origin [OF assms] by blast
  have same: "encrypt_packet P A b' p = encrypt_packet P A b p" for p
    using inv assms(1) by (simp add: encrypt_packet_def bridge_inv_def split: option.split packet_payload.split)
  show ?thesis
  proof (cases ev)
    case (SerialFrame payload)
    with out ev inv show ?thesis
      by (auto simp: handler_simps send_multicast_def same bridge_inv_def
          split: radio_frame.splits if_splits)
  next
    case (UdpPacket data)
    with out have "snd (bridge_step P A b' (UdpPacket data)) \<noteq> []" by auto
    with udp_forwarding_exact [OF inv] obtain q where "decode_packet P data = Some q" "deliverable P A b' q"
      by blast
    moreover have "\<exists>frame. eff = Write_serial frame"
      using out UdpPacket
      by (auto simp: handler_simps handle_udp_packet_def Let_def
          split: option.splits prod.splits bool.splits ingress.splits if_splits)
    ultimately show ?thesis
      using ev UdpPacket inv by (fastforce simp: deliverable_def is_encrypted_def bridge_inv_def)
  qed (use out in \<open>simp_all add: bridge_step_def\<close>)
qed

theorem effects_have_an_origin_witness:
  "\<exists>payload p. SerialFrame payload \<in> set [Tick, SerialFrame [4, 17, 255, 42, 0, 0, 1, 104, 105]] \<and>
     decode_frame sample_proto payload = Packet p \<and> \<not> lan_originated sample_proto p \<and>
     mp_payload_variant p = Some (Decoded (sample_data [104, 105]))"
proof -
  let ?b = "sample_bridge MqttProxy 9 0"
  let ?evs = "[Tick, SerialFrame [4, 17, 255, 42, 0, 0, 1, 104, 105]]"
  let ?dg = "send_multicast (encode_mesh_packet sample_proto (encrypt_packet sample_proto sample_aes ?b hello)) 0xE0000045 4403"
  have dec: "decode_frame sample_proto [4, 17, 255, 42, 0, 0, 1, 104, 105] = Packet hello"
    by (simp add: decode_frame_def hello_def)
  have "Send_udp ?dg \<in> set (snd (run_steps (bridge_step sample_proto sample_aes) ?b ?evs))"
    by (simp add: handler_simps dec lan_originated_def hello_def) (simp add: bridge_step_def)
  from effects_have_an_origin [OF sample_bridge_inv this] dec show ?thesis
    by (auto simp: hello_def)
qed

section \<open>The dispatch loop\<close>

definition ends :: "'x proto \<Rightarrow> bridge_event \<Rightarrow> session_end option" where
  "ends P ev = (case ev of
     SerialFrame payload \<Rightarrow> (case decode_frame P payload of Rebooted \<Rightarrow> Some RadioRebooted | _ \<Rightarrow> None)
   | SerialError e \<Rightarrow> Some (SerialLost e)
   | UdpError e \<Rightarrow> Some (UdpFailed e)
   | _ \<Rightarrow> None)"

definition loop_step :: "'x proto \<Rightarrow> aes_crate \<Rightarrow> bridge \<times> u32 \<Rightarrow> bridge_event \<Rightarrow> (bridge \<times> u32) \<times> effect list" where
  "loop_step P A s ev = (case ev of
     Tick \<Rightarrow> ((fst s, next_nonce (snd s)), [Write_serial (heartbeat_frame P (next_nonce (snd s)))])
   | _ \<Rightarrow> (case bridge_step P A (fst s) ev of (b', eff) \<Rightarrow> ((b', snd s), eff)))"

lemma handle_serial_frame_end:
  "snd (snd (handle_serial_frame P A b payload)) \<longleftrightarrow> decode_frame P payload = Rebooted"
  "decode_frame P payload = Rebooted \<Longrightarrow> handle_serial_frame P A b payload = (b, [], True)"
  by (simp_all add: handle_serial_frame_def Let_def split: radio_frame.split)

lemma run_loop_serial_frame:
  "run_loop P A b n (SerialFrame payload # evs) =
     (if decode_frame P payload = Rebooted then (b, [], RadioRebooted)
      else (case run_loop P A (fst (bridge_step P A b (SerialFrame payload))) n evs of
        (b'', eff', end') \<Rightarrow> (b'', snd (bridge_step P A b (SerialFrame payload)) @ eff', end')))"
  using handle_serial_frame_end [where P = P and A = A and b = b and payload = payload]
  by (cases "handle_serial_frame P A b payload") (auto simp: bridge_step_def split: bool.split)

text \<open>C31: the dispatch loop handles the events before the first reboot notice or error one by one in their
  order, ends with what that event says (or with all readers gone), and never looks at a later event.\<close>

theorem run_loop_spec:
  "run_loop P A b n evs =
     (let handled = takeWhile (\<lambda>ev. ends P ev = None) evs;
          run = run_steps (loop_step P A) (b, n) handled
      in (fst (fst run), snd run,
          case dropWhile (\<lambda>ev. ends P ev = None) evs of
            [] \<Rightarrow> all_readers_gone | ev # _ \<Rightarrow> the (ends P ev)))"
proof (induction evs arbitrary: b n)
  case Nil
  show ?case by simp
next
  case (Cons ev evs)
  show ?case
  proof (cases ev)
    case (SerialFrame payload)
    then show ?thesis
      using Cons.IH
      by (simp del: run_loop.simps add: run_loop_serial_frame ends_def loop_step_def Let_def
          split: radio_frame.split prod.split)
  next
    case (UdpPacket data)
    then show ?thesis
      using Cons.IH by (simp add: ends_def loop_step_def bridge_step_udp Let_def split: prod.split)
  next
    case Tick
    then show ?thesis using Cons.IH by (simp add: ends_def loop_step_def Let_def split: prod.split)
  qed (simp_all add: ends_def)
qed

section \<open>Heartbeats\<close>

lemma next_nonce_step:
  assumes "k < 2 ^ 32 - 2"
  shows "next_nonce (of_nat (2 + k)) = of_nat (2 + Suc k)"
proof -
  have "(of_nat (2 + Suc k) :: u32) \<noteq> 1"
  proof
    assume "(of_nat (2 + Suc k) :: u32) = 1"
    then have "unat (of_nat (2 + Suc k) :: u32) = unat (1 :: u32)" by (rule arg_cong)
    then have "(2 + Suc k) mod 2 ^ 32 = 1"
      by (simp only: unat_of_nat) simp
    with assms show False by (cases "k = 2 ^ 32 - 3") simp_all
  qed
  then show ?thesis by (simp add: next_nonce_def Let_def HEARTBEAT_NONCE_NODEINFO_PING_def add.commute)
qed

text \<open>The nonce of the heartbeat after \<open>k\<close> earlier ones runs through 2, 3, ..., \<open>2 ^ 32 - 1\<close>, 0 and starts
  over: it skips 1, the node-info ping, also where the counter wraps around.\<close>

theorem heartbeat_nonces:
  "(next_nonce ^^ Suc k) HEARTBEAT_NONCE_NODEINFO_PING = of_nat (2 + k mod (2 ^ 32 - 1)) \<and>
   (next_nonce ^^ Suc k) HEARTBEAT_NONCE_NODEINFO_PING \<noteq> HEARTBEAT_NONCE_NODEINFO_PING"
proof -
  let ?m = "2 ^ 32 - 1 :: nat"
  have closed: "(next_nonce ^^ Suc k) HEARTBEAT_NONCE_NODEINFO_PING = of_nat (2 + k mod ?m)"
  proof (induction k)
    case 0
    show ?case by (simp add: next_nonce_def HEARTBEAT_NONCE_NODEINFO_PING_def)
  next
    case (Suc k)
    have step: "(next_nonce ^^ Suc (Suc k)) HEARTBEAT_NONCE_NODEINFO_PING = next_nonce (of_nat (2 + k mod ?m))"
      using Suc by simp
    show ?case
    proof (cases "k mod ?m = ?m - 1")
      case True
      then have "Suc k mod ?m = 0" by (simp add: mod_Suc)
      moreover have "next_nonce (of_nat (2 + (?m - 1))) = of_nat 2"
        by (simp add: next_nonce_def HEARTBEAT_NONCE_NODEINFO_PING_def)
      ultimately show ?thesis using step True by simp
    next
      case False
      moreover have "k mod ?m < ?m" by simp
      ultimately have "k mod ?m < 2 ^ 32 - 2" and "Suc k mod ?m = Suc (k mod ?m)"
        by (simp_all add: mod_Suc)
      then show ?thesis using next_nonce_step step by metis
    qed
  qed
  have "unat (of_nat (2 + k mod ?m) :: u32) = (2 + k mod ?m) mod 2 ^ 32"
    by (simp only: unat_of_nat) simp
  moreover have "(2 + k mod ?m) mod 2 ^ 32 \<noteq> 1"
  proof (cases "k mod ?m = ?m - 1")
    case False
    moreover have "k mod ?m < ?m" by simp
    ultimately have "2 + k mod ?m < 2 ^ 32" by simp
    then show ?thesis by simp
  qed simp
  ultimately have "(of_nat (2 + k mod ?m) :: u32) \<noteq> 1" by (metis unat_1)
  with closed show ?thesis by (simp only: HEARTBEAT_NONCE_NODEINFO_PING_def) simp
qed

section \<open>The reader threads\<close>

definition read_goes_on :: "read_outcome \<Rightarrow> bool" where
  "read_goes_on outcome = (case outcome of Read_ok data \<Rightarrow> data \<noteq> [] | Read_err e \<Rightarrow> error_kind e = TimedOut)"

definition read_failure :: "read_outcome \<Rightarrow> io_error" where
  "read_failure outcome = (case outcome of
     Read_ok _ \<Rightarrow> Io_error UnexpectedEof ''serial port closed'' | Read_err e \<Rightarrow> e)"

lemma serial_reader_goes_on:
  assumes "list_all read_goes_on outs"
  shows "serial_reader r (map (Pair False) outs @ rest) =
    map SerialFrame (snd (feed_bytes r (concat (map read_bytes outs)))) @
    serial_reader (fst (feed_bytes r (concat (map read_bytes outs)))) rest"
  using assms
proof (induction outs arbitrary: r)
  case Nil
  then show ?case by simp
next
  case (Cons out outs)
  then show ?case
  proof (cases out)
    case (Read_ok data)
    then obtain x xs where "data = x # xs" using Cons.prems by (cases data) (auto simp: read_goes_on_def)
    with Read_ok Cons show ?thesis
      by (simp add: read_bytes_def feed_bytes_append [of r "x # xs", simplified append_Cons] del: feed_bytes.simps(2) split: prod.split)
  next
    case (Read_err e)
    with Cons show ?thesis by (simp add: read_bytes_def read_goes_on_def)
  qed
qed

lemma serial_reader_fails:
  "\<not> read_goes_on out \<Longrightarrow> serial_reader r ((False, out) # rest) = [SerialError (read_failure out)]"
  by (auto simp: read_goes_on_def read_failure_def split: read_outcome.split list.split)

text \<open>The serial reader thread sends exactly the frames of the byte stream it has read, whatever the
  sizes of the reads and however many time out, and on the first failure (a closed port included) sends
  the error as its last event.\<close>

theorem serial_reader_spec:
  assumes "list_all read_goes_on outs"
  shows "serial_reader FrameReader_new (map (Pair False) outs) = map SerialFrame (hunt (concat (map read_bytes outs))) \<and>
    (\<not> read_goes_on out \<longrightarrow>
       serial_reader FrameReader_new (map (Pair False) outs @ (False, out) # rest) =
         map SerialFrame (hunt (concat (map read_bytes outs))) @ [SerialError (read_failure out)])"
proof -
  have hunt: "snd (feed_bytes FrameReader_new bs) = hunt bs" for bs
    by (simp add: FrameReader_new_def feed_bytes_reference)
  show ?thesis
    using serial_reader_goes_on [OF assms, of FrameReader_new "[]"]
      serial_reader_goes_on [OF assms, of FrameReader_new "(False, out) # rest"]
    by (simp add: hunt serial_reader_fails del: serial_reader.simps(2))
qed

theorem serial_reader_spec_witness:
  "serial_reader FrameReader_new (map (Pair False)
     [Read_ok [0x94, 0xC3], Read_err (Io_error TimedOut ''no data''), Read_ok [0, 1, 7]] @ (False, Read_ok []) # []) =
     [SerialFrame [7], SerialError (Io_error UnexpectedEof ''serial port closed'')]"
proof -
  let ?outs = "[Read_ok [0x94, 0xC3], Read_err (Io_error TimedOut ''no data''), Read_ok [0, 1, 7]]"
  have "list_all read_goes_on ?outs" by (simp add: read_goes_on_def)
  moreover have "hunt (concat (map read_bytes ?outs)) = [[7]]"
    by (simp add: read_bytes_def START1_def START2_def frame_len_eq MAX_PACKET_SIZE_def)
  ultimately show ?thesis
    using serial_reader_spec [of ?outs "Read_ok []" "[]"] by (simp add: read_goes_on_def read_failure_def)
qed

lemma heartbeat_timer_count:
  assumes "list_all (\<lambda>i. snd i \<le> T) is"
  shows "heartbeat_timer next_tick is = [] \<or>
    next_tick + HEARTBEAT_INTERVAL * length (heartbeat_timer next_tick is) \<le> T + HEARTBEAT_INTERVAL"
  using assms
proof (induction "is" arbitrary: next_tick)
  case Nil
  then show ?case by simp
next
  case (Cons i "is")
  obtain stop now where i: "i = (stop, now)" by fastforce
  with Cons.prems have prems: "list_all (\<lambda>i. snd i \<le> T) is" "now \<le> T" by simp_all
  show ?case
    using Cons.IH [OF prems(1), of next_tick] Cons.IH [OF prems(1), of "next_tick + HEARTBEAT_INTERVAL"] prems(2) i
    by auto
qed

text \<open>Up to time \<open>T\<close>, the heartbeat timer started at \<open>t0\<close> has ticked at most once per 15 seconds,
  and no tick comes in the first 15.\<close>

theorem heartbeat_rate:
  assumes "list_all (\<lambda>i. snd i \<le> T) is"
  shows "length (heartbeat_timer (t0 + HEARTBEAT_INTERVAL) is) \<le> (T - t0) div HEARTBEAT_INTERVAL"
proof -
  let ?n = "length (heartbeat_timer (t0 + HEARTBEAT_INTERVAL) is)"
  have "?n = 0 \<or> t0 + HEARTBEAT_INTERVAL * ?n \<le> T"
    using heartbeat_timer_count [OF assms, of "t0 + HEARTBEAT_INTERVAL"] by auto
  then have "HEARTBEAT_INTERVAL * ?n \<le> T - t0" by auto
  then show ?thesis
    by (simp add: less_eq_div_iff_mult_less_eq HEARTBEAT_INTERVAL_def mult.commute)
qed

theorem heartbeat_rate_witness:
  "length (heartbeat_timer (0 + HEARTBEAT_INTERVAL) [(False, 250), (False, 15000), (False, 30250)]) \<le> 2"
  using heartbeat_rate [of 30250 "[(False, 250), (False, 15000), (False, 30250)]" 0]
  by (simp add: HEARTBEAT_INTERVAL_def)

end
