(* ===== verification/Lan.thy ===== *)
theory Lan
  imports Bridge_Spec
begin

text \<open>
  Two bridges on one LAN: the bytes one radio writes to its serial port, through the first bridge's reader
  thread and handler, the datagrams, the second bridge's reader thread and handler, to the frames the
  second radio receives.
\<close>

section \<open>One packet\<close>

text \<open>
  The channel under which bridge \<open>b\<close> sends \<open>p\<close>, the channel bridge \<open>b'\<close> tries first on it, and the
  conditions on the packet, its channel on both sides and the codec at this packet.
\<close>

definition sending_channel :: "bridge \<Rightarrow> 'x mesh_packet \<Rightarrow> channel_key option" where
  "sending_channel b p = find (\<lambda>c. ck_index c = mp_channel p) (br_channels b)"

definition receiving_channel :: "bridge \<Rightarrow> u32 \<Rightarrow> channel_key option" where
  "receiving_channel b' h = find (\<lambda>c. ck_hash c = h \<and> ck_key c \<noteq> []) (br_channels b')"

definition local_packet :: "'x proto \<Rightarrow> 'x mesh_packet \<Rightarrow> bool" where
  "local_packet P p \<longleftrightarrow> \<not> lan_originated P p \<and> \<not> mp_pki_encrypted p"

definition codec_at :: "'x proto \<Rightarrow> aes_crate \<Rightarrow> bridge \<Rightarrow> 'x mesh_packet \<Rightarrow> 'x data_msg \<Rightarrow> bool" where
  "codec_at P A b p d \<longleftrightarrow>
     decode_data P (encode_data P d) = Some d \<and>
     decode_mesh_packet P (encode_mesh_packet P (encrypt_packet P A b p)) = Some (encrypt_packet P A b p) \<and>
     length (encode_mesh_packet P (encrypt_packet P A b p)) \<le> 600"

definition crosses :: "'x proto \<Rightarrow> aes_crate \<Rightarrow> bridge \<Rightarrow> bridge \<Rightarrow> 'x mesh_packet \<Rightarrow> bool" where
  "crosses P A b b' p \<longleftrightarrow>
     local_packet P p \<and> mp_from p \<noteq> 0 \<and> mp_from p \<noteq> bc_my_node_num (br_config b') \<and>
     (\<exists>d ck ck'. mp_payload_variant p = Some (Decoded d) \<and> codec_at P A b p d \<and>
        sending_channel b p = Some ck \<and> ck_key ck \<noteq> [] \<and>
        receiving_channel b' (ck_hash ck) = Some ck' \<and> ck_key ck' = ck_key ck)"

definition arrival :: "'x proto \<Rightarrow> bridge \<Rightarrow> bridge \<Rightarrow> 'x mesh_packet \<Rightarrow> 'x mesh_packet" where
  "arrival P b b' p =
     p\<lparr>mp_channel := ck_index (the (receiving_channel b' (ck_hash (the (sending_channel b p))))),
       mp_transport_mechanism := transport_multicast_udp P\<rparr>"

text \<open>What \<open>recv_from\<close> of the other hosts returns for the effects of a bridge.\<close>

definition datagrams :: "effect list \<Rightarrow> bytes list" where
  "datagrams effs = concat (map (\<lambda>eff. case eff of Send_udp dg \<Rightarrow> [dg_data dg] | Write_serial _ \<Rightarrow> []) effs)"

lemma datagrams_simps [simp]:
  "datagrams [] = []"
  "datagrams (Send_udp dg # effs) = dg_data dg # datagrams effs"
  "datagrams (Write_serial w # effs) = datagrams effs"
  "datagrams (effs @ effs') = datagrams effs @ datagrams effs'"
  by (simp_all add: datagrams_def)

text \<open>What a frame of the radio leads to on the LAN, whatever has happened before: a packet neither of the LAN nor of MQTT nor PKI-encrypted, encrypted for its channel.\<close>

definition lan_form :: "'x proto \<Rightarrow> aes_crate \<Rightarrow> bridge \<Rightarrow> bytes \<Rightarrow> bytes list" where
  "lan_form P A b payload = (case decode_frame P payload of
     Packet p \<Rightarrow>
       if mp_transport_mechanism p \<in> {transport_multicast_udp P, transport_mqtt P} \<or> mp_pki_encrypted p then []
       else [encode_mesh_packet P (encrypt_packet P A b p)]
   | _ \<Rightarrow> [])"

lemma lan_form_recent [simp]: "lan_form P A (b\<lparr>br_recent := r\<rparr>) payload = lan_form P A b payload"
  by (simp add: lan_form_def split: radio_frame.split)

lemma serial_datagrams: "datagrams (snd (bridge_step P A b (SerialFrame payload))) = lan_form P A b payload"
  by (simp add: bridge_step_serial lan_form_def lan_originated_def send_multicast_def split: radio_frame.split)

text \<open>What the radio receives for the effects of a bridge.\<close>

definition serial_writes :: "effect list \<Rightarrow> bytes list" where
  "serial_writes effs = concat (map (\<lambda>eff. case eff of Write_serial w \<Rightarrow> [w] | Send_udp _ \<Rightarrow> []) effs)"

lemma serial_writes_simps [simp]:
  "serial_writes [] = []"
  "serial_writes (Send_udp dg # effs) = serial_writes effs"
  "serial_writes (Write_serial w # effs) = w # serial_writes effs"
  by (simp_all add: serial_writes_def)

lemma crosses_decrypts:
  assumes "crosses P A b b' p"
  shows "decrypt_packet P A b' (encrypt_packet P A b p) = Some (p\<lparr>mp_channel :=
      ck_index (the (receiving_channel b' (ck_hash (the (sending_channel b p)))))\<rparr>)"
    and "is_encrypted (encrypt_packet P A b p)"
proof -
  obtain d ck ck' where "mp_payload_variant p = Some (Decoded d)" "codec_at P A b p d"
      "sending_channel b p = Some ck" "ck_key ck \<noteq> []"
      "receiving_channel b' (ck_hash ck) = Some ck'" "ck_key ck' = ck_key ck"
    using assms by (auto simp: crosses_def)
  note c = this [unfolded sending_channel_def receiving_channel_def]
  show "decrypt_packet P A b' (encrypt_packet P A b p) = Some (p\<lparr>mp_channel :=
      ck_index (the (receiving_channel b' (ck_hash (the (sending_channel b p)))))\<rparr>)"
    using decrypt_encrypted_packet [OF c(1,3,4,5,6), of P A] c(2,3,5)
    by (simp add: codec_at_def sending_channel_def receiving_channel_def)
  show "is_encrypted (encrypt_packet P A b p)"
    by (simp add: is_encrypted_def encrypt_packet_decoded [OF c(1,3,4)])
qed

lemma crosses_sent:
  assumes "crosses P A b b' p" and "decode_frame P payload = Packet p"
  shows "datagrams (snd (bridge_step P A b (SerialFrame payload))) = [encode_mesh_packet P (encrypt_packet P A b p)]"
  using assms by (simp add: handler_simps crosses_def local_packet_def send_multicast_def)

lemma crosses_received:
  assumes "crosses P A b b' p" and "bridge_inv config channels b'" and "bc_ingress config = Phone"
    and "packet_key p \<notin> set (order (br_recent b'))"
  shows "snd (bridge_step P A b' (UdpPacket (encode_mesh_packet P (encrypt_packet P A b p)))) =
    [Write_serial (write_packet P (arrival P b b' p))]"
proof -
  have inv: "recent_ok (br_recent b')" "br_config b' = config" using assms(2) by (simp_all add: bridge_inv_def)
  have dec: "decode_packet P (encode_mesh_packet P (encrypt_packet P A b p)) = Some (encrypt_packet P A b p)"
    and ids: "mp_from (encrypt_packet P A b p) \<noteq> 0" "mp_from (encrypt_packet P A b p) \<noteq> bc_my_node_num (br_config b')"
    using assms(1) by (auto simp: crosses_def codec_at_def decode_packet_def)
  have "packet_key (encrypt_packet P A b p) \<notin> set (order (br_recent b'))"
    using assms(4) by (simp add: packet_key_def)
  from handle_udp_packet_fresh [OF inv(1) dec crosses_decrypts(2) [OF assms(1)] ids this, of A]
  show ?thesis
    using assms(3) inv(2) by (simp add: handler_simps crosses_decrypts(1) [OF assms(1)] arrival_def)
qed

section \<open>A stream of packets\<close>

lemma crosses_recent [simp]:
  "crosses P A (b\<lparr>br_recent := r\<rparr>) b' p = crosses P A b b' p"
  "crosses P A b (b'\<lparr>br_recent := r\<rparr>) p = crosses P A b b' p"
  "arrival P (b\<lparr>br_recent := r\<rparr>) b' p = arrival P b b' p"
  "arrival P b (b'\<lparr>br_recent := r\<rparr>) p = arrival P b b' p"
  by (simp_all add: crosses_def codec_at_def sending_channel_def receiving_channel_def arrival_def)

lemma stream_sent:
  assumes "list_all2 (\<lambda>payload p. decode_frame P payload = Packet p \<and> crosses P A b b' p) payloads ps"
  shows "datagrams (snd (run_steps (bridge_step P A) b (map SerialFrame payloads))) =
    map (\<lambda>p. encode_mesh_packet P (encrypt_packet P A b p)) ps"
  using assms
proof (induction payloads arbitrary: b ps)
  case Nil
  then show ?case by simp
next
  case (Cons payload payloads)
  then obtain p ps' where ps: "ps = p # ps'" "decode_frame P payload = Packet p" "crosses P A b b' p"
      "list_all2 (\<lambda>payload p. decode_frame P payload = Packet p \<and> crosses P A b b' p) payloads ps'"
    by (auto simp: list_all2_Cons1)
  obtain r where r: "fst (bridge_step P A b (SerialFrame payload)) = b\<lparr>br_recent := r\<rparr>"
    using bridge_step_state by blast
  show ?case
    using Cons.IH [of "b\<lparr>br_recent := r\<rparr>" ps'] ps(4) r crosses_sent [OF ps(3,2)]
    by (simp add: ps(1) run_steps_snd_Cons del: run_steps.simps(2))
qed

lemma disjoint_after_insert: "S \<subseteq> insert k T \<Longrightarrow> k \<notin> U \<Longrightarrow> U \<inter> T = {} \<Longrightarrow> U \<inter> S = {}"
  by blast

lemma stream_received:
  assumes "list_all (crosses P A b b') ps" and "bridge_inv config channels b'" and "bc_ingress config = Phone"
    and "distinct (map packet_key ps)"
    and "packet_key ` set ps \<inter> set (order (br_recent b')) = {}"
  shows "snd (run_steps (bridge_step P A) b' (map (\<lambda>p. UdpPacket (encode_mesh_packet P (encrypt_packet P A b p))) ps)) =
    map (\<lambda>p. Write_serial (write_packet P (arrival P b b' p))) ps"
  using assms
proof (induction ps arbitrary: b')
  case Nil
  show ?case by simp
next
  case (Cons p ps)
  let ?ev = "UdpPacket (encode_mesh_packet P (encrypt_packet P A b p))"
  let ?b' = "fst (bridge_step P A b' ?ev)"
  have ok: "recent_ok (br_recent b')" using Cons.prems(2) by (simp add: bridge_inv_def)
  have st: "?b' = b'\<lparr>br_recent := remember (br_recent b') (event_key P b' ?ev)\<rparr>" by (rule bridge_step_state)
  have key: "event_key P b' ?ev = Some (packet_key p)"
    using Cons.prems(1) crosses_decrypts(2) [of P A b b' p]
    by (auto simp: event_key_def crosses_def codec_at_def decode_packet_def packet_key_def)
  have "set (order (br_recent ?b')) \<subseteq> insert (packet_key p) (set (order (br_recent b')))"
    using recent_window.window_subset [OF ok] by (simp add: st key remember_def)
  moreover have "packet_key p \<notin> packet_key ` set ps" using Cons.prems(4) by simp
  moreover have "packet_key ` set ps \<inter> set (order (br_recent b')) = {}" using Cons.prems(5) by auto
  ultimately have disj: "packet_key ` set ps \<inter> set (order (br_recent ?b')) = {}"
    by (rule disjoint_after_insert)
  have inv: "bridge_inv config channels ?b'" by (rule bridge_machine.keeps [OF Cons.prems(2)])
  have "list_all (crosses P A b ?b') ps"
    using Cons.prems(1) by (simp add: st list_all_iff)
  from Cons.IH [OF this inv Cons.prems(3) _ disj] Cons.prems(4)
  have rest: "snd (run_steps (bridge_step P A) ?b' (map (\<lambda>p. UdpPacket (encode_mesh_packet P (encrypt_packet P A b p))) ps)) =
      map (\<lambda>p. Write_serial (write_packet P (arrival P b b' p))) ps"
    by (simp add: st)
  have "snd (bridge_step P A b' ?ev) = [Write_serial (write_packet P (arrival P b b' p))]"
    by (rule crosses_received [OF _ Cons.prems(2,3)]) (use Cons.prems(1,5) in simp_all)
  with rest show ?case by (simp add: run_steps_snd_Cons del: run_steps.simps(2))
qed

lemma udp_reader_datagrams:
  assumes "list_all (\<lambda>d. length d \<le> 600) ds"
  shows "udp_reader (map (\<lambda>d. (False, Read_ok d)) ds) = map UdpPacket ds"
  using assms by (induction ds) simp_all

section \<open>A sample\<close>

lemma sample_crosses:
  assumes "i = 42 \<or> i = 43"
  shows "crosses sample_proto sample_aes (sample_bridge Phone 9 0) (sample_bridge Phone 7 3)
    (sample_packet 17 255 i 0 0 (Some (Decoded (sample_data [104, 105]))))"
    (is "crosses _ _ ?b ?b' ?p")
proof -
  have q: "encrypt_packet sample_proto sample_aes ?b ?p = sample_packet 17 255 i 8 0
      (Some (Encrypted (encrypt_aes_ctr sample_aes DEFAULT_PSK 17 i [104, 105])))"
    using encrypt_packet_decoded [of ?p "sample_data [104, 105]" ?b "sample_channel 0" sample_proto sample_aes]
    by (simp add: sample_packet_def sample_data_def)
  have "codec_at sample_proto sample_aes ?b ?p (sample_data [104, 105])"
    using assms by (auto simp: codec_at_def q aes_ctr.length_enc sample_data_roundtrip simp del: sample_proto_simps(3,4))
  then show ?thesis
    by (simp add: crosses_def local_packet_def lan_originated_def sending_channel_def receiving_channel_def)
qed

section \<open>Short keys\<close>

text \<open>On a channel whose PSK has 2 to 15 bytes nothing is encrypted: the packet goes to the LAN
  labelled as encrypted and carrying the channel hash, but its payload is the plain encoding of the data.\<close>

theorem short_psk_sends_plaintext:
  assumes "mp_payload_variant p = Some (Decoded d)"
    and "sending_channel b p = Some (channel_key_from_proto (mp_channel p) name psk)"
    and "2 \<le> length psk" and "length psk < 16"
  shows "encrypt_packet P A b p =
    p\<lparr>mp_payload_variant := Some (Encrypted (encode_data P d)), mp_channel := channel_hash name psk\<rparr>"
proof -
  have key: "expand_psk psk = psk" using assms(3) by (simp add: expand_psk_def)
  then have "psk \<noteq> []" using assms(3) by auto
  then show ?thesis
    using encrypt_packet_decoded [OF assms(1), of b "channel_key_from_proto (mp_channel p) name psk" P A] assms(2,4)
    by (simp add: sending_channel_def key encrypt_aes_ctr_def aes_ctr_transform_def)
qed

theorem short_psk_sends_plaintext_witness:
  "mp_payload_variant (encrypt_packet sample_proto sample_aes
     (Bridge_new (br_config (sample_bridge Phone 9 0)) [channel_key_from_proto 0 ''x'' [1, 2, 3]]) hello)
     = Some (Encrypted [104, 105])"
  using short_psk_sends_plaintext [of hello "sample_data [104, 105]"
      "Bridge_new (br_config (sample_bridge Phone 9 0)) [channel_key_from_proto 0 ''x'' [1, 2, 3]]" "''x''" "[1, 2, 3]"
      sample_proto sample_aes]
  by (simp add: hello_def sending_channel_def Bridge_new_def sample_data_def)

end
