(* ===== verification/Network.thy ===== *)
theory Network
  imports Lan
begin

text \<open>
  Any number of bridges on one LAN, each with its own radio.  A datagram goes to the multicast group; as in
  \<open>setup_multicast_socket\<close>, which turns the loop back off, the sending host does not receive it.  UDP
  may lose, delay, reorder and duplicate: a host may receive any datagram ever sent, any number of times.
  The radios may report anything at any time, and may report back what a bridge has written to them, any number
  of times: the loop from the LAN through a bridge and its radio to the LAN is closed.  The heartbeat may tick at any
  time.  A session may end at any time; the next one starts with an empty memory of recent packets and the first
  nonce, the settings of the radio being as before.
\<close>

section \<open>Radios\<close>

text \<open>
  The firmware of a radio is a parameter: how it decodes the messages written to it.  It is relied on to take for a
  packet only what was encoded as one, and to keep the mark of a packet that came from the LAN.
\<close>

record 'x radio =
  rd_to_radio :: "bytes \<Rightarrow> 'x to_radio option"
  rd_envelope :: "bytes \<Rightarrow> 'x service_envelope option"

definition keeps_stamp :: "'x proto \<Rightarrow> 'x radio \<Rightarrow> bool" where
  "keeps_stamp P R \<longleftrightarrow> (\<forall>m q. rd_to_radio R (encode_to_radio P m) = Some (To_packet q) \<longrightarrow>
     (\<exists>p. m = To_packet p \<and>
        (mp_transport_mechanism p = transport_multicast_udp P \<longrightarrow> mp_transport_mechanism q = transport_multicast_udp P)))"

text \<open>
  What a radio reports back for a frame written to it: a packet with the same sender and id, with the transport mechanism
  the packet was written with, or, if it came in an envelope through the MQTT proxy, with that of MQTT.
\<close>

definition echoes :: "'x proto \<Rightarrow> 'x radio \<Rightarrow> bytes \<Rightarrow> bytes \<Rightarrow> bool" where
  "echoes P R w payload \<longleftrightarrow> (\<exists>p q. decode_frame P payload = Packet p \<and> packet_key p = packet_key q \<and>
     ((rd_to_radio R (drop 4 w) = Some (To_packet q) \<and> mp_transport_mechanism p = mp_transport_mechanism q) \<or>
      (\<exists>m d e. rd_to_radio R (drop 4 w) = Some (To_mqtt_proxy m) \<and> pm_payload_variant m = Some (Proxy_data d) \<and>
         rd_envelope R d = Some e \<and> se_packet e = Some q \<and> mp_transport_mechanism p = transport_mqtt P)))"

section \<open>Hosts and steps\<close>

type_synonym site = "bridge_config \<times> channel_key list"

record host =
  h_main :: "bridge \<times> u32"
  h_log :: "(bridge_event \<times> effect list) list"

abbreviation h_bridge :: "host \<Rightarrow> bridge" where
  "h_bridge h \<equiv> fst (h_main h)"

text \<open>The datagrams sent, the reports the radios made of their own, the reports of what had been written, and the writes.\<close>

record network =
  net_hosts :: "host list"
  net_wire :: "(nat \<times> bytes) list"
  net_reports :: "(nat \<times> bytes) list"
  net_echoes :: "(nat \<times> bytes) list"
  net_written :: "(nat \<times> bytes) list"

definition site_bridge :: "site \<Rightarrow> bridge" where
  "site_bridge site = Bridge_new (fst site) (snd site)"

definition host_new :: "site \<Rightarrow> host" where
  "host_new site = \<lparr>h_main = (site_bridge site, HEARTBEAT_NONCE_NODEINFO_PING), h_log = []\<rparr>"

definition net_init :: "site list \<Rightarrow> network" where
  "net_init sites = \<lparr>net_hosts = map host_new sites, net_wire = [], net_reports = [], net_echoes = [], net_written = []\<rparr>"

definition host_effects :: "'x proto \<Rightarrow> aes_crate \<Rightarrow> host \<Rightarrow> bridge_event \<Rightarrow> effect list" where
  "host_effects P A h ev = snd (loop_step P A (h_main h) ev)"

definition host_step :: "'x proto \<Rightarrow> aes_crate \<Rightarrow> host \<Rightarrow> bridge_event \<Rightarrow> host" where
  "host_step P A h ev =
     \<lparr>h_main = fst (loop_step P A (h_main h) ev), h_log = h_log h @ [(ev, host_effects P A h ev)]\<rparr>"

text \<open>Host \<open>i\<close> handles an event.\<close>

definition net_event :: "'x proto \<Rightarrow> aes_crate \<Rightarrow> network \<Rightarrow> nat \<Rightarrow> bridge_event \<Rightarrow> network" where
  "net_event P A s i ev =
     s\<lparr>net_hosts := (net_hosts s)[i := host_step P A (net_hosts s ! i) ev],
       net_wire := net_wire s @ map (Pair i) (datagrams (host_effects P A (net_hosts s ! i) ev)),
       net_written := net_written s @ map (Pair i) (serial_writes (host_effects P A (net_hosts s ! i) ev))\<rparr>"

definition net_report :: "'x proto \<Rightarrow> aes_crate \<Rightarrow> network \<Rightarrow> nat \<Rightarrow> bytes \<Rightarrow> network" where
  "net_report P A s i payload = (net_event P A s i (SerialFrame payload))\<lparr>net_reports := net_reports s @ [(i, payload)]\<rparr>"

definition net_echo :: "'x proto \<Rightarrow> aes_crate \<Rightarrow> network \<Rightarrow> nat \<Rightarrow> bytes \<Rightarrow> network" where
  "net_echo P A s i payload = (net_event P A s i (SerialFrame payload))\<lparr>net_echoes := net_echoes s @ [(i, payload)]\<rparr>"

definition net_deliver :: "'x proto \<Rightarrow> aes_crate \<Rightarrow> network \<Rightarrow> nat \<Rightarrow> bytes \<Rightarrow> network" where
  "net_deliver P A s j d = net_event P A s j (UdpPacket (take 600 d))"

inductive net_step :: "'x proto \<Rightarrow> aes_crate \<Rightarrow> 'x radio \<Rightarrow> site list \<Rightarrow> network \<Rightarrow> network \<Rightarrow> bool"
  for P :: "'x proto" and A :: aes_crate and R :: "'x radio" and sites :: "site list" where
  report: "i < length (net_hosts s) \<Longrightarrow> ends P (SerialFrame payload) = None \<Longrightarrow>
    net_step P A R sites s (net_report P A s i payload)"
| echo: "i < length (net_hosts s) \<Longrightarrow> (i, w) \<in> set (net_written s) \<Longrightarrow> echoes P R w payload \<Longrightarrow>
    net_step P A R sites s (net_echo P A s i payload)"
| deliver: "j < length (net_hosts s) \<Longrightarrow> (i, d) \<in> set (net_wire s) \<Longrightarrow> i \<noteq> j \<Longrightarrow>
    net_step P A R sites s (net_deliver P A s j d)"
| tick: "i < length (net_hosts s) \<Longrightarrow> net_step P A R sites s (net_event P A s i Tick)"
| restart: "i < length (net_hosts s) \<Longrightarrow>
    net_step P A R sites s (s\<lparr>net_hosts := (net_hosts s)[i := host_new (sites ! i)]\<rparr>)"

abbreviation net_reachable :: "'x proto \<Rightarrow> aes_crate \<Rightarrow> 'x radio \<Rightarrow> site list \<Rightarrow> network \<Rightarrow> bool" where
  "net_reachable P A R sites s \<equiv> (net_step P A R sites)\<^sup>*\<^sup>* (net_init sites) s"

inductive_cases net_stepE: "net_step P A R sites s s'"

section \<open>Effects of a step\<close>

lemma event_key_recent [simp]: "event_key P (b\<lparr>br_recent := r\<rparr>) ev = event_key P b ev"
  by (simp add: event_key_def split: bridge_event.split radio_frame.split option.split)

lemma loop_step_handler:
  "fst (fst (loop_step P A s ev)) = fst (bridge_step P A (fst s) ev)"
  "ev \<noteq> Tick \<Longrightarrow> snd (loop_step P A s ev) = snd (bridge_step P A (fst s) ev)"
  by (cases ev; simp add: loop_step_def bridge_step_def split: prod.split)+

lemma loop_step_tick: "snd (loop_step P A s Tick) = [Write_serial (heartbeat_frame P (next_nonce (snd s)))]"
  by (simp add: loop_step_def)

lemma next_nonce_no_ping: "next_nonce n \<noteq> HEARTBEAT_NONCE_NODEINFO_PING"
  by (simp add: next_nonce_def Let_def HEARTBEAT_NONCE_NODEINFO_PING_def)

lemma host_effects_udp: "datagrams (host_effects P A h (UdpPacket d)) = []"
  by (auto simp: host_effects_def loop_step_handler bridge_step_udp handle_udp_packet_def Let_def
      split: option.split prod.split bool.split ingress.split)

lemma host_effects_tick: "datagrams (host_effects P A h Tick) = []"
  by (simp add: host_effects_def loop_step_tick)

lemma host_step_simps [simp]:
  "h_bridge (host_step P A h ev) = fst (bridge_step P A (h_bridge h) ev)"
  "h_log (host_step P A h ev) = h_log h @ [(ev, host_effects P A h ev)]"
  by (simp_all add: host_step_def loop_step_handler)

text \<open>What a write needs: an encrypted packet of another node that is not in the memory.\<close>

lemma write_needs:
  assumes "recent_ok (br_recent b)" and "w \<in> set (serial_writes (snd (bridge_step P A b ev)))"
  obtains d q where "ev = UdpPacket d" and "decode_packet P d = Some q" and "is_encrypted q"
    and "mp_from q \<noteq> 0" and "mp_from q \<noteq> bc_my_node_num (br_config b)"
    and "event_key P b ev = Some (packet_key q)" and "packet_key q \<notin> set (order (br_recent b))"
proof (cases ev)
  case (UdpPacket d)
  with assms(2) have "snd (handle_udp_packet P A b d) \<noteq> []" by (auto simp: bridge_step_udp)
  then obtain q where q: "decode_packet P d = Some q" "is_encrypted q" "mp_from q \<noteq> 0"
      "mp_from q \<noteq> bc_my_node_num (br_config b)" "snd (recent_insert (br_recent b) (mp_from q) (mp_id q))"
    by (auto simp: handle_udp_packet_def split: option.splits if_splits prod.splits bool.splits)
  moreover have "event_key P b ev = Some (packet_key q)"
    using q UdpPacket by (simp add: event_key_def)
  moreover have "packet_key q \<notin> set (order (br_recent b))"
    using q(5) recent_insert_iff [OF assms(1)] by (simp add: packet_key_def)
  ultimately show ?thesis using that UdpPacket by blast
next
  case (SerialFrame payload)
  with assms(2) show ?thesis by (auto simp: bridge_step_serial split: radio_frame.splits if_splits)
qed (use assms(2) in \<open>simp_all add: bridge_step_def\<close>)

section \<open>A session is a run of its bridge\<close>

lemma host_run:
  "h_bridge (foldl (host_step P A) h evs) = fst (run_steps (bridge_step P A) (h_bridge h) evs)"
  "map fst (h_log (foldl (host_step P A) h evs)) = map fst (h_log h) @ evs"
proof (induction evs arbitrary: h)
  case (Cons ev evs)
  { case 1 show ?case by (simp add: Cons.IH run_steps_fst_Cons del: run_steps.simps(2)) }
  { case 2 show ?case by (simp add: Cons.IH) }
qed simp_all

lemma host_run_log:
  assumes "n < length evs"
  shows "h_log (foldl (host_step P A) (host_new site) evs) ! n =
    (evs ! n, host_effects P A (foldl (host_step P A) (host_new site) (take n evs)) (evs ! n))"
  using assms
proof (induction evs rule: rev_induct)
  case (snoc ev evs)
  let ?h = "foldl (host_step P A) (host_new site) evs"
  have len: "length (h_log ?h) = length evs"
    using arg_cong [OF host_run(2) [of P A "host_new site" evs], of length] by (simp add: host_new_def)
  show ?case
  proof (cases "n = length evs")
    case True
    then show ?thesis by (simp add: len nth_append)
  next
    case False
    with snoc show ?thesis by (simp add: len nth_append)
  qed
qed simp

definition host_inv :: "'x proto \<Rightarrow> aes_crate \<Rightarrow> site \<Rightarrow> host \<Rightarrow> bool" where
  "host_inv P A site h \<longleftrightarrow> h = foldl (host_step P A) (host_new site) (map fst (h_log h))"

lemma host_inv_new [simp]: "host_inv P A site (host_new site)"
  by (simp add: host_inv_def host_new_def)

lemma host_inv_step: "host_inv P A site h \<Longrightarrow> host_inv P A site (host_step P A h ev)"
  by (simp add: host_inv_def)

lemma site_bridge_inv [simp]: "bridge_inv (fst site) (snd site) (site_bridge site)"
  by (simp add: site_bridge_def)

lemma host_run_inv: "bridge_inv (fst site) (snd site) (h_bridge (foldl (host_step P A) (host_new site) evs))"
  by (simp add: host_run host_new_def bridge_machine.run_keeps)

lemma host_bridge_inv: "host_inv P A site h \<Longrightarrow> bridge_inv (fst site) (snd site) (h_bridge h)"
  using host_run_inv [of site P A "map fst (h_log h)"] by (simp add: host_inv_def)

lemma host_bridge_site:
  assumes "host_inv P A site h"
  shows "\<exists>r. h_bridge h = (site_bridge site)\<lparr>br_recent := r\<rparr>"
  using host_bridge_inv [OF assms]
  by (intro exI [of _ "br_recent (h_bridge h)"]) (simp add: bridge_inv_def site_bridge_def Bridge_new_def)

text \<open>The memory holds only keys of events of the session.\<close>

lemma memory_origin:
  assumes "k \<in> set (order (br_recent (h_bridge (foldl (host_step P A) (host_new site) evs))))"
  shows "\<exists>ev \<in> set evs. event_key P (site_bridge site) ev = Some k"
  using assms
proof (induction evs rule: rev_induct)
  case Nil
  then show ?case by (simp add: host_new_def site_bridge_def Bridge_new_def) (simp add: RecentPackets_new_def)
next
  case (snoc ev evs)
  let ?h = "foldl (host_step P A) (host_new site) evs"
  have "host_inv P A site ?h" by (simp add: host_inv_def host_run host_new_def)
  then obtain r where r: "h_bridge ?h = (site_bridge site)\<lparr>br_recent := r\<rparr>"
    using host_bridge_site by blast
  have ok: "recent_ok (br_recent (h_bridge ?h))" using host_run_inv [of site P A evs] by (simp add: bridge_inv_def)
  show ?case
  proof (cases "event_key P (site_bridge site) ev")
    case None
    with snoc r show ?thesis by (auto simp: bridge_step_state remember_def)
  next
    case (Some k')
    with snoc r recent_window.window_subset [OF ok, of k'] show ?thesis
      by (auto simp: bridge_step_state remember_def)
  qed
qed

text \<open>
  Two writes of one packet in a session are far apart, and so are the first event of the session that mentions a packet,
  from the LAN or from the radio, and a later write of it: what entered the key into the memory keeps it
  there for 1023 more events.  A later event with the key does not renew it: if the LAN repeats the packet first and the
  radio reports it only when the key is about to be dropped, the LAN's next repetition is written.  A heartbeat is no
  write of a packet.
\<close>

definition writes_at :: "host \<Rightarrow> nat \<Rightarrow> bool" where
  "writes_at h n \<longleftrightarrow> fst (h_log h ! n) \<noteq> Tick \<and> serial_writes (snd (h_log h ! n)) \<noteq> []"

definition log_key :: "'x proto \<Rightarrow> site \<Rightarrow> host \<Rightarrow> nat \<Rightarrow> packet_key option" where
  "log_key P site h n = event_key P (site_bridge site) (fst (h_log h ! n))"

definition first_mention :: "'x proto \<Rightarrow> site \<Rightarrow> host \<Rightarrow> nat \<Rightarrow> bool" where
  "first_mention P site h n \<longleftrightarrow> (\<forall>l < n. log_key P site h l \<noteq> log_key P site h n)"

lemma host_log_at:
  assumes "host_inv P A site h" and "n < length (h_log h)"
  shows "h_log h ! n = (fst (h_log h ! n),
    host_effects P A (foldl (host_step P A) (host_new site) (take n (map fst (h_log h)))) (fst (h_log h ! n)))"
  using host_run_log [of n "map fst (h_log h)" P A site] assms by (simp add: host_inv_def)

lemma host_log_entry:
  assumes "host_inv P A site h" and "(ev, effs) \<in> set (h_log h)"
  shows "\<exists>r n. recent_ok r \<and> effs = snd (loop_step P A ((site_bridge site)\<lparr>br_recent := r\<rparr>, n) ev)"
proof -
  obtain n where n: "n < length (h_log h)" "h_log h ! n = (ev, effs)"
    using assms(2) by (auto simp: in_set_conv_nth)
  let ?h = "foldl (host_step P A) (host_new site) (take n (map fst (h_log h)))"
  have inv: "host_inv P A site ?h" by (simp add: host_inv_def host_run host_new_def)
  obtain r where r: "h_bridge ?h = (site_bridge site)\<lparr>br_recent := r\<rparr>"
    using host_bridge_site [OF inv] by blast
  have ok: "recent_ok r" using host_bridge_inv [OF inv] r by (simp add: bridge_inv_def)
  have main: "h_main ?h = ((site_bridge site)\<lparr>br_recent := r\<rparr>, snd (h_main ?h))" using r by (simp add: prod_eq_iff)
  have "effs = snd (loop_step P A (h_main ?h) ev)"
    using host_log_at [OF assms(1) n(1)] n(2) by (simp add: host_effects_def)
  with ok show ?thesis by (subst (asm) main) blast
qed

lemma event_key_host:
  assumes "host_inv P A site h"
  shows "event_key P (h_bridge h) ev = event_key P (site_bridge site) ev"
  using host_bridge_site [OF assms] by (metis event_key_recent)

lemma written_key_fresh:
  assumes "host_inv P A site h" and "n < length (h_log h)" and "writes_at h n"
  shows "\<exists>k. log_key P site h n = Some k \<and>
    k \<notin> set (order (br_recent (h_bridge (foldl (host_step P A) (host_new site) (take n (map fst (h_log h)))))))"
proof -
  let ?h = "foldl (host_step P A) (host_new site) (take n (map fst (h_log h)))"
  have inv: "host_inv P A site ?h" by (simp add: host_inv_def host_run host_new_def)
  then have ok: "recent_ok (br_recent (h_bridge ?h))"
    using host_bridge_inv bridge_inv_def by blast
  have "serial_writes (snd (bridge_step P A (h_bridge ?h) (fst (h_log h ! n)))) \<noteq> []"
    using assms(3) host_log_at [OF assms(1,2)] by (metis writes_at_def host_effects_def loop_step_handler(2) snd_conv)
  then have "hd (serial_writes (snd (bridge_step P A (h_bridge ?h) (fst (h_log h ! n))))) \<in>
      set (serial_writes (snd (bridge_step P A (h_bridge ?h) (fst (h_log h ! n)))))"
    by (rule list.set_sel(1))
  from write_needs [OF ok this] show ?thesis
    by (metis event_key_host [OF inv] log_key_def)
qed

lemma first_key_fresh:
  assumes "host_inv P A site h" and "n < length (h_log h)" and "first_mention P site h n"
    and "log_key P site h n = Some k"
  shows "k \<notin> set (order (br_recent (h_bridge (foldl (host_step P A) (host_new site) (take n (map fst (h_log h)))))))"
proof
  assume "k \<in> set (order (br_recent (h_bridge (foldl (host_step P A) (host_new site) (take n (map fst (h_log h)))))))"
  from memory_origin [OF this] obtain ev where "ev \<in> set (take n (map fst (h_log h)))" "event_key P (site_bridge site) ev = Some k"
    by blast
  then obtain l where "l < n" "log_key P site h l = Some k"
    using assms(2) by (auto simp: in_set_conv_nth log_key_def)
  with assms(3,4) show False by (simp add: first_mention_def)
qed

lemma session_writes_apart:
  assumes inv: "host_inv P A site h" and "m < n" and "n < length (h_log h)"
    and near: "n - m < RECENT_PACKETS_CAPACITY"
    and "writes_at h m \<or> first_mention P site h m"
    and same: "log_key P site h m = log_key P site h n"
  shows "\<not> writes_at h n"
proof
  let ?evs = "map fst (h_log h)"
  let ?at = "\<lambda>i. foldl (host_step P A) (host_new site) (take i ?evs)"
  let ?between = "take (n - Suc m) (drop (Suc m) ?evs)"
  assume writes: "writes_at h n"
  have len: "length ?between < RECENT_PACKETS_CAPACITY" using near by simp
  have m: "m < length (h_log h)" using assms(2,3) by simp
  obtain k where k: "log_key P site h n = Some k" "k \<notin> set (order (br_recent (h_bridge (?at n))))"
    using written_key_fresh [OF inv assms(3) writes] by blast
  have new: "k \<notin> set (order (br_recent (h_bridge (?at m))))"
    using assms(5)
  proof
    assume "writes_at h m"
    from written_key_fresh [OF inv m this] k(1) same show ?thesis by simp
  next
    assume "first_mention P site h m"
    from first_key_fresh [OF inv m this] k(1) same show ?thesis by simp
  qed
  have inv_m: "host_inv P A site (?at m)" by (simp add: host_inv_def host_run host_new_def)
  have ev: "event_key P (h_bridge (?at m)) (?evs ! m) = Some k"
    using same k(1) m by (simp add: event_key_host [OF inv_m] log_key_def)
  have "take n ?evs = take m ?evs @ ?evs ! m # ?between"
  proof -
    have "take n ?evs = take (Suc m + (n - Suc m)) ?evs" using assms(2) by simp
    also have "\<dots> = take (Suc m) ?evs @ ?between" by (simp only: take_add)
    finally show ?thesis using m by (simp add: take_Suc_conv_app_nth)
  qed
  then have "h_bridge (?at n) =
      fst (run_steps (bridge_step P A) (fst (bridge_step P A (h_bridge (?at m)) (?evs ! m))) ?between)"
    by (simp add: host_run(1) [of P A "host_step P A (?at m) (?evs ! m)"])
  with entered_key_kept [OF host_bridge_inv [OF inv_m] ev new len, of A] k(2) show False by simp
qed

definition writes_spread :: "'x proto \<Rightarrow> site \<Rightarrow> host \<Rightarrow> bool" where
  "writes_spread P site h \<longleftrightarrow> (\<forall>n < length (h_log h). \<forall>m < n.
     writes_at h m \<and> writes_at h n \<and> log_key P site h m = log_key P site h n \<longrightarrow> RECENT_PACKETS_CAPACITY \<le> n - m)"

lemma session_writes_spread: "host_inv P A site h \<Longrightarrow> writes_spread P site h"
  unfolding writes_spread_def using session_writes_apart by (metis not_le)

section \<open>Invariants of the network\<close>

text \<open>What a host has heard: reports and echoes of its radio, datagrams of other hosts, its timer.\<close>

definition heard :: "network \<Rightarrow> nat \<Rightarrow> bridge_event \<Rightarrow> bool" where
  "heard s j ev = (case ev of
     SerialFrame payload \<Rightarrow> (j, payload) \<in> set (net_reports s) \<or> (j, payload) \<in> set (net_echoes s)
   | UdpPacket data \<Rightarrow> (\<exists>i d. (i, d) \<in> set (net_wire s) \<and> i \<noteq> j \<and> data = take 600 d)
   | Tick \<Rightarrow> True
   | _ \<Rightarrow> False)"

definition hosts_inv :: "'x proto \<Rightarrow> aes_crate \<Rightarrow> site list \<Rightarrow> network \<Rightarrow> bool" where
  "hosts_inv P A sites s \<longleftrightarrow> length (net_hosts s) = length sites \<and>
     (\<forall>j < length sites. host_inv P A (sites ! j) (net_hosts s ! j) \<and>
        (\<forall>ev \<in> set (map fst (h_log (net_hosts s ! j))). heard s j ev))"

lemma hosts_inv_init: "hosts_inv P A sites (net_init sites)"
  by (simp add: hosts_inv_def net_init_def, simp add: host_new_def)

definition grows :: "network \<Rightarrow> network \<Rightarrow> bool" where
  "grows s s' \<longleftrightarrow> set (net_wire s) \<subseteq> set (net_wire s') \<and> set (net_reports s) \<subseteq> set (net_reports s') \<and>
     set (net_echoes s) \<subseteq> set (net_echoes s')"

lemma heard_grows: "heard s j ev \<Longrightarrow> grows s s' \<Longrightarrow> heard s' j ev"
  by (fastforce simp: heard_def grows_def split: bridge_event.splits)

lemma hosts_inv_update:
  assumes "hosts_inv P A sites s" and "j < length sites" and "grows s s'"
    and "net_hosts s' = (net_hosts s)[j := h]" and "host_inv P A (sites ! j) h"
    and "\<forall>ev \<in> set (map fst (h_log h)). heard s' j ev"
  shows "hosts_inv P A sites s'"
  using assms heard_grows [OF _ assms(3)] unfolding hosts_inv_def by (auto simp: nth_list_update)

lemma hosts_inv_event:
  assumes "hosts_inv P A sites s" and "j < length sites" and "grows s s'"
    and "net_hosts s' = (net_hosts s)[j := host_step P A (net_hosts s ! j) ev]" and "heard s' j ev"
  shows "hosts_inv P A sites s'"
proof (rule hosts_inv_update [OF assms(1-4)])
  have "host_inv P A (sites ! j) (net_hosts s ! j)" and log: "\<forall>ev \<in> set (map fst (h_log (net_hosts s ! j))). heard s j ev"
    using assms(1,2) by (auto simp: hosts_inv_def)
  then show "host_inv P A (sites ! j) (host_step P A (net_hosts s ! j) ev)" by (simp add: host_inv_step)
  show "\<forall>ev \<in> set (map fst (h_log (host_step P A (net_hosts s ! j) ev))). heard s' j ev"
    using log heard_grows [OF _ assms(3)] assms(5) by auto
qed

lemmas net_moves = net_event_def net_report_def net_echo_def net_deliver_def

lemma hosts_inv_step:
  assumes "net_step P A R sites s s'" and inv: "hosts_inv P A sites s"
  shows "hosts_inv P A sites s'"
proof -
  have len: "length (net_hosts s) = length sites" using inv by (simp add: hosts_inv_def)
  from assms(1) show ?thesis
  proof cases
    case (report i payload)
    then show ?thesis
      by (intro hosts_inv_event [OF inv, of i _ "SerialFrame payload"]) (auto simp: net_moves len grows_def heard_def)
  next
    case (echo i w payload)
    then show ?thesis
      by (intro hosts_inv_event [OF inv, of i _ "SerialFrame payload"]) (auto simp: net_moves len grows_def heard_def)
  next
    case (deliver j i d)
    then show ?thesis
      by (intro hosts_inv_event [OF inv, of j _ "UdpPacket (take 600 d)"]) (auto simp: net_moves len grows_def heard_def)
  next
    case (tick i)
    then show ?thesis
      by (intro hosts_inv_event [OF inv, of i _ Tick]) (auto simp: net_moves len grows_def heard_def)
  next
    case (restart i)
    then show ?thesis
      by (intro hosts_inv_update [OF inv, of i _ "host_new (sites ! i)"])
        (simp_all add: len grows_def, simp add: host_new_def)
  qed
qed

lemma hosts_inv_reachable: "net_reachable P A R sites s \<Longrightarrow> hosts_inv P A sites s"
  by (induction rule: rtranclp_induct) (simp_all add: hosts_inv_init hosts_inv_step)

definition report_datagrams :: "'x proto \<Rightarrow> aes_crate \<Rightarrow> site list \<Rightarrow> nat \<times> bytes \<Rightarrow> (nat \<times> bytes) list" where
  "report_datagrams P A sites r = map (Pair (fst r)) (lan_form P A (site_bridge (sites ! fst r)) (snd r))"

lemma host_serial: "datagrams (host_effects P A h (SerialFrame payload)) = lan_form P A (h_bridge h) payload"
  by (simp add: host_effects_def loop_step_handler serial_datagrams)

lemma host_report:
  assumes "host_inv P A (sites ! i) h"
  shows "datagrams (host_effects P A h (SerialFrame payload)) = lan_form P A (site_bridge (sites ! i)) payload"
  using host_bridge_site [OF assms] by (auto simp: host_serial)

text \<open>Every packet written to a radio bears the mark of the LAN, or is in an envelope of the MQTT proxy.\<close>

definition stamped :: "'x proto \<Rightarrow> bytes \<Rightarrow> bool" where
  "stamped P w \<longleftrightarrow> (\<exists>m. drop 4 w = encode_to_radio P m \<and>
     (\<forall>p. m = To_packet p \<longrightarrow> mp_transport_mechanism p = transport_multicast_udp P))"

lemma drop_header [simp]: "drop 4 (frame_payload p) = p"
  by (simp add: frame_payload_shape)

lemma stamped_writes: "w \<in> set (serial_writes (host_effects P A h ev)) \<Longrightarrow> stamped P w"
proof (cases ev)
  case Tick
  assume "w \<in> set (serial_writes (host_effects P A h ev))"
  with Tick show ?thesis by (auto simp: host_effects_def loop_step_tick heartbeat_frame_def stamped_def)
next
  case (UdpPacket d)
  assume "w \<in> set (serial_writes (host_effects P A h ev))"
  with UdpPacket show ?thesis
    by (auto simp: host_effects_def loop_step_handler bridge_step_udp handle_udp_packet_def Let_def stamped_def
        write_packet_def write_mqtt_proxy_def split: option.splits prod.splits bool.splits ingress.splits if_splits)
next
  case (SerialFrame payload)
  assume "w \<in> set (serial_writes (host_effects P A h ev))"
  with SerialFrame show ?thesis
    by (auto simp: host_effects_def loop_step_handler bridge_step_serial split: radio_frame.splits if_splits)
qed (simp_all add: host_effects_def loop_step_handler bridge_step_def)

text \<open>So what a radio reports back is not sent to the LAN again.\<close>

lemma echo_not_sent:
  assumes "keeps_stamp P R" and "stamped P w" and "echoes P R w payload"
  shows "lan_form P A b payload = []"
proof -
  obtain m where m: "drop 4 w = encode_to_radio P m"
      "\<forall>p. m = To_packet p \<longrightarrow> mp_transport_mechanism p = transport_multicast_udp P"
    using assms(2) by (auto simp: stamped_def)
  obtain p q where p: "decode_frame P payload = Packet p"
      "rd_to_radio R (drop 4 w) = Some (To_packet q) \<and> mp_transport_mechanism p = mp_transport_mechanism q \<or>
       mp_transport_mechanism p = transport_mqtt P"
    using assms(3) by (auto simp: echoes_def)
  have "mp_transport_mechanism p \<in> {transport_multicast_udp P, transport_mqtt P}"
    using p(2)
  proof
    assume "rd_to_radio R (drop 4 w) = Some (To_packet q) \<and> mp_transport_mechanism p = mp_transport_mechanism q"
    with assms(1) m show ?thesis unfolding keeps_stamp_def by (metis insertI1)
  qed simp
  with p(1) show ?thesis by (simp add: lan_form_def)
qed

definition traffic_inv :: "'x proto \<Rightarrow> aes_crate \<Rightarrow> site list \<Rightarrow> network \<Rightarrow> bool" where
  "traffic_inv P A sites s \<longleftrightarrow>
     net_wire s = concat (map (report_datagrams P A sites) (net_reports s)) \<and>
     (\<forall>(i, w) \<in> set (net_written s). stamped P w)"

lemma traffic_inv_step:
  assumes "net_step P A R sites s s'" and "keeps_stamp P R" and hosts: "hosts_inv P A sites s" and inv: "traffic_inv P A sites s"
  shows "traffic_inv P A sites s'"
proof -
  have host: "host_inv P A (sites ! i) (net_hosts s ! i)" if "i < length (net_hosts s)" for i
    using hosts that by (simp add: hosts_inv_def)
  have written: "\<forall>(j, w) \<in> set (map (Pair i) (serial_writes (host_effects P A h ev))). stamped P w" for i h ev
    using stamped_writes by auto
  from assms(1) show ?thesis
  proof cases
    case (report i payload)
    with inv written show ?thesis
      by (auto simp: traffic_inv_def net_moves report_datagrams_def host_report [OF host])
  next
    case (echo i w payload)
    then have "stamped P w" using inv by (auto simp: traffic_inv_def)
    from echo_not_sent [OF assms(2) this echo(4)] echo inv written show ?thesis
      by (auto simp: traffic_inv_def net_moves host_report [OF host])
  next
    case (deliver j i d)
    with inv written show ?thesis by (auto simp: traffic_inv_def net_moves host_effects_udp)
  next
    case (tick i)
    with inv written show ?thesis by (auto simp: traffic_inv_def net_moves host_effects_tick)
  next
    case (restart i)
    with inv show ?thesis by (simp add: traffic_inv_def)
  qed
qed

lemma traffic_inv_reachable:
  assumes "net_reachable P A R sites s" and "keeps_stamp P R"
  shows "traffic_inv P A sites s"
  using assms(1)
proof (induction rule: rtranclp_induct)
  case base
  show ?case by (simp add: traffic_inv_def net_init_def)
next
  case (step s s')
  from traffic_inv_step [OF step(2) assms(2) hosts_inv_reachable [OF step(1)] step(3)] show ?case .
qed

section \<open>What travels\<close>

definition travels :: "'x proto \<Rightarrow> aes_crate \<Rightarrow> bridge \<Rightarrow> bytes \<Rightarrow> bool" where
  "travels P A b payload = (case decode_frame P payload of
     Packet p \<Rightarrow>
       decode_mesh_packet P (encode_mesh_packet P (encrypt_packet P A b p)) = Some (encrypt_packet P A b p) \<and>
       length (encode_mesh_packet P (encrypt_packet P A b p)) \<le> 600
   | _ \<Rightarrow> True)"

definition relay :: "'x proto \<Rightarrow> aes_crate \<Rightarrow> bridge \<Rightarrow> 'x mesh_packet \<Rightarrow> bytes option" where
  "relay P A b q = (case bc_ingress (br_config b) of
     MqttProxy \<Rightarrow> map_option (\<lambda>channel_id. write_mqtt_proxy P \<lparr>se_packet = Some q, se_channel_id = channel_id,
       se_gateway_id = MQTT_PROXY_GATEWAY_ID\<rparr>) (downlink_channel_id b q)
   | Phone \<Rightarrow> map_option (\<lambda>q'. write_packet P (q'\<lparr>mp_transport_mechanism := transport_multicast_udp P\<rparr>))
       (decrypt_packet P A b q))"

lemma relay_recent [simp]: "relay P A (b\<lparr>br_recent := r\<rparr>) q = relay P A b q"
  by (simp add: relay_def split: ingress.split)

lemma written_is_relay:
  assumes "recent_ok (br_recent b)" and "Write_serial w \<in> set (snd (bridge_step P A b (UdpPacket d)))"
    and "decode_packet P d = Some q"
  shows "relay P A b q = Some w \<and> mp_from q \<noteq> 0 \<and> mp_from q \<noteq> bc_my_node_num (br_config b)"
proof -
  from assms(2) have "w \<in> set (serial_writes (snd (bridge_step P A b (UdpPacket d))))"
    by (force simp: serial_writes_def)
  from write_needs [OF assms(1) this]
  have q: "is_encrypted q" "mp_from q \<noteq> 0" "mp_from q \<noteq> bc_my_node_num (br_config b)"
      "packet_key q \<notin> set (order (br_recent b))"
    using assms(3) by (metis bridge_event.inject(2) option.inject)+
  from handle_udp_packet_fresh [OF assms(1,3) q, of A] assms(2) q(2,3) show ?thesis
    by (auto simp: bridge_step_udp relay_def split: ingress.splits option.splits)
qed

lemma sent_is_report:
  assumes "d \<in> set (lan_form P A b payload)"
  obtains p where "decode_frame P payload = Packet p" and "\<not> lan_originated P p" and "\<not> mp_pki_encrypted p"
    and "d = encode_mesh_packet P (encrypt_packet P A b p)"
proof (cases "decode_frame P payload")
  case (Packet p)
  with assms that [of p] show ?thesis by (simp add: lan_form_def lan_originated_def split: if_splits)
qed (use assms in \<open>simp_all add: lan_form_def\<close>)

lemma wire_origin:
  assumes "traffic_inv P A sites s" and "(i, d) \<in> set (net_wire s)"
  obtains payload where "(i, payload) \<in> set (net_reports s)" and "d \<in> set (lan_form P A (site_bridge (sites ! i)) payload)"
  using assms that by (auto simp: traffic_inv_def report_datagrams_def)

section \<open>A sample\<close>

text \<open>Two hosts with the phone ingress.  The radio of the first reports a text message, the second receives the datagram
  twice, sends a heartbeat, and its radio reports the message back.\<close>

definition sample_radio :: "unit radio" where
  "sample_radio = \<lparr>rd_to_radio = (\<lambda>bs. case bs of k # p \<Rightarrow> if k = 7 then map_option To_packet (sample_decode_mesh p) else None | [] \<Rightarrow> None),
     rd_envelope = (\<lambda>_. None)\<rparr>"

definition sample_sites :: "site list" where
  "sample_sites =
     [(br_config (sample_bridge Phone 9 0), [sample_channel 0]), (br_config (sample_bridge Phone 7 3), [sample_channel 3])]"

definition sample_report :: bytes where
  "sample_report = [4, 17, 255, 42, 0, 0, 1, 104, 105]"

definition sample_echo :: bytes where
  "sample_echo = [4, 17, 255, 42, 3, 6, 1, 104, 105]"

definition sample_datagram :: bytes where
  "sample_datagram = encode_mesh_packet sample_proto (encrypt_packet sample_proto sample_aes (sample_bridge Phone 9 0) hello)"

definition sample_write :: bytes where
  "sample_write = write_packet sample_proto (arrival sample_proto (sample_bridge Phone 9 0) (sample_bridge Phone 7 3) hello)"

definition sample_net1 :: network where
  "sample_net1 = net_report sample_proto sample_aes (net_init sample_sites) 0 sample_report"

definition sample_net2 :: network where
  "sample_net2 = net_deliver sample_proto sample_aes sample_net1 1 sample_datagram"

definition sample_net3 :: network where
  "sample_net3 = net_deliver sample_proto sample_aes sample_net2 1 sample_datagram"

definition sample_net4 :: network where
  "sample_net4 = net_event sample_proto sample_aes sample_net3 1 Tick"

definition sample_net :: network where
  "sample_net = net_echo sample_proto sample_aes sample_net4 1 sample_echo"

lemma sample_site_bridge [simp]:
  "site_bridge (sample_sites ! 0) = sample_bridge Phone 9 0"
  "site_bridge (sample_sites ! Suc 0) = sample_bridge Phone 7 3"
  "length sample_sites = 2"
  "fst (sample_sites ! Suc 0) = br_config (sample_bridge Phone 7 3)"
  by (simp_all add: sample_sites_def site_bridge_def) (simp_all add: sample_bridge_def Bridge_new_def)

lemma sample_report_decoded: "decode_frame sample_proto sample_report = Packet hello"
  by (simp add: decode_frame_def hello_def sample_report_def)

lemma sample_hello_crosses: "crosses sample_proto sample_aes (sample_bridge Phone 9 0) (sample_bridge Phone 7 3) hello"
  using sample_crosses [of 42] by (simp add: hello_def)

lemma sample_datagram_short: "length sample_datagram \<le> 600"
  using sample_hello_crosses by (auto simp: crosses_def codec_at_def sample_datagram_def)

lemma sample_datagram_key: "event_key sample_proto (sample_bridge Phone 7 3) (UdpPacket sample_datagram) = Some (17, 42)"
  using sample_hello_crosses crosses_decrypts(2) [OF sample_hello_crosses]
  by (auto simp: event_key_def crosses_def codec_at_def decode_packet_def sample_datagram_def packet_key_def)
    (simp_all add: hello_def)

lemma sample_report_sent: "lan_form sample_proto sample_aes (sample_bridge Phone 9 0) sample_report = [sample_datagram]"
  by (simp add: lan_form_def sample_report_decoded sample_datagram_def) (simp add: hello_def)

lemma sample_echo_not_sent: "lan_form sample_proto sample_aes b sample_echo = []"
  by (simp add: lan_form_def decode_frame_def sample_echo_def)

lemma sample_radio_keeps_stamp: "keeps_stamp sample_proto sample_radio"
  unfolding keeps_stamp_def
proof (intro allI impI)
  fix m q
  assume "rd_to_radio sample_radio (encode_to_radio sample_proto m) = Some (To_packet q)"
  then show "\<exists>p. m = To_packet p \<and> (mp_transport_mechanism p = transport_multicast_udp sample_proto \<longrightarrow>
      mp_transport_mechanism q = transport_multicast_udp sample_proto)"
    by (cases m) (auto simp: sample_radio_def split: if_splits option.splits packet_payload.splits)
qed

lemma sample_hosts1: "net_hosts sample_net1 = [host_step sample_proto sample_aes (host_new (sample_sites ! 0)) (SerialFrame sample_report),
     host_new (sample_sites ! 1)]"
  by (simp add: sample_net1_def net_moves net_init_def) (simp add: sample_sites_def)

lemma sample_wire1: "net_wire sample_net1 = [(0, sample_datagram)]" "net_reports sample_net1 = [(0, sample_report)]"
  by (simp_all add: sample_net1_def net_moves net_init_def host_serial, simp add: host_new_def sample_report_sent)

lemma sample_host_log:
  "h_log (net_hosts sample_net2 ! 1) = [(UdpPacket sample_datagram, [Write_serial sample_write])]"
proof -
  have "snd (bridge_step sample_proto sample_aes (sample_bridge Phone 7 3) (UdpPacket sample_datagram)) = [Write_serial sample_write]"
    unfolding sample_datagram_def sample_write_def
    by (rule crosses_received [OF sample_hello_crosses sample_bridge_inv]) (simp_all, simp add: RecentPackets_new_def)
  then show ?thesis
    using sample_datagram_short
    by (simp add: sample_net2_def net_moves sample_hosts1, simp add: host_new_def host_effects_def loop_step_handler)
qed

lemmas sample_steps = sample_net_def sample_net4_def sample_net3_def sample_net2_def net_moves

lemma sample_net_wire: "net_wire sample_net = [(0, sample_datagram)]" "net_reports sample_net = [(0, sample_report)]"
    "net_echoes sample_net = [(1, sample_echo)]"
  by (simp_all add: sample_steps sample_wire1 host_effects_udp host_effects_tick host_serial sample_echo_not_sent)
    (simp add: sample_net1_def net_moves net_init_def)

lemma sample_net_log:
  "\<exists>effs. h_log (net_hosts sample_net ! 1) =
     [(UdpPacket sample_datagram, [Write_serial sample_write]), (UdpPacket sample_datagram, effs),
      (Tick, [Write_serial (heartbeat_frame sample_proto 2)]), (SerialFrame sample_echo, [])]"
proof -
  have len: "length (net_hosts sample_net2) = 2" by (simp add: sample_net2_def net_moves sample_hosts1)
  have nonce: "snd (h_main (host_step sample_proto sample_aes h (UdpPacket d))) = snd (h_main h)" for h d
    by (simp add: host_step_def loop_step_def split: prod.split)
  have start: "snd (h_main (net_hosts sample_net2 ! 1)) = HEARTBEAT_NONCE_NODEINFO_PING"
    by (simp add: sample_net2_def net_moves sample_hosts1 nonce) (simp add: host_new_def)
  let ?h3 = "host_step sample_proto sample_aes (net_hosts sample_net2 ! 1) (UdpPacket (take 600 sample_datagram))"
  have "host_effects sample_proto sample_aes ?h3 Tick = [Write_serial (heartbeat_frame sample_proto 2)]"
    unfolding host_effects_def loop_step_tick nonce start by (simp add: next_nonce_def HEARTBEAT_NONCE_NODEINFO_PING_def)
  moreover have "host_effects sample_proto sample_aes h (SerialFrame sample_echo) = []" for h
    by (simp add: host_effects_def loop_step_handler bridge_step_serial decode_frame_def sample_echo_def lan_originated_def)
  ultimately show ?thesis
    using sample_host_log sample_datagram_short len
    by (simp add: sample_net_def sample_net4_def sample_net3_def net_moves)
qed

lemma sample_written: "(1, sample_write) \<in> set (net_written sample_net4)"
proof -
  have "host_effects sample_proto sample_aes (net_hosts sample_net1 ! 1) (UdpPacket (take 600 sample_datagram)) = [Write_serial sample_write]"
    using sample_host_log sample_datagram_short by (simp add: sample_net2_def net_moves sample_hosts1 host_new_def)
  then show ?thesis by (simp add: sample_net4_def sample_net3_def sample_net2_def net_moves)
qed

lemma sample_echoes: "echoes sample_proto sample_radio sample_write sample_echo"
proof -
  let ?p = "sample_packet 17 255 42 3 6 (Some (Decoded (sample_data [104, 105])))"
  have "arrival sample_proto (sample_bridge Phone 9 0) (sample_bridge Phone 7 3) hello = ?p"
    by (simp add: arrival_def sending_channel_def receiving_channel_def hello_def sample_packet_def)
  then have "rd_to_radio sample_radio (drop 4 sample_write) = Some (To_packet ?p)"
    by (simp add: sample_write_def write_packet_def sample_radio_def) (simp add: sample_data_def)
  moreover have "decode_frame sample_proto sample_echo = Packet ?p"
    by (simp add: decode_frame_def sample_echo_def)
  ultimately show ?thesis unfolding echoes_def by blast
qed

lemma sample_net_reachable: "net_reachable sample_proto sample_aes sample_radio sample_sites sample_net"
proof -
  let ?step = "net_step sample_proto sample_aes sample_radio sample_sites"
  have hosts: "length (net_hosts sample_net1) = 2" "length (net_hosts sample_net2) = 2" "length (net_hosts sample_net3) = 2"
      "length (net_hosts sample_net4) = 2"
    by (simp_all add: sample_steps sample_hosts1)
  have wire: "(0, sample_datagram) \<in> set (net_wire sample_net1)" "(0, sample_datagram) \<in> set (net_wire sample_net2)"
    by (simp_all add: sample_steps sample_wire1)
  have "?step (net_init sample_sites) sample_net1"
    unfolding sample_net1_def by (rule report) (simp_all add: net_init_def ends_def sample_report_decoded)
  moreover have "?step sample_net1 sample_net2"
    unfolding sample_net2_def by (rule deliver [OF _ wire(1)]) (simp_all add: hosts)
  moreover have "?step sample_net2 sample_net3"
    unfolding sample_net3_def by (rule deliver [OF _ wire(2)]) (simp_all add: hosts)
  moreover have "?step sample_net3 sample_net4"
    unfolding sample_net4_def by (rule tick) (simp add: hosts)
  moreover have "?step sample_net4 sample_net"
    unfolding sample_net_def by (rule echo [OF _ sample_written sample_echoes]) (simp add: hosts)
  ultimately show ?thesis by (meson converse_rtranclp_into_rtranclp rtranclp.rtrancl_refl)
qed

section \<open>Properties\<close>

text \<open>C3: no storm, although the radios report back what is written to them.  Whatever is lost, delayed, repeated or delivered
  to whom, and whenever sessions restart, the LAN carries exactly one datagram, in the LAN's form, for each packet that a
  radio reports of its own and that bears neither the mark of the LAN or of MQTT nor PKI encryption: nothing received from
  the LAN and nothing a radio reports back causes more traffic on it.  And in a session no bridge writes a packet to its
  radio twice within 1024 events.\<close>

theorem network_no_storm:
  assumes "net_reachable P A R sites s" and "keeps_stamp P R"
  shows "net_wire s = concat (map (report_datagrams P A sites) (net_reports s)) \<and>
    length (net_wire s) \<le> length (net_reports s) \<and>
    (\<forall>j < length sites. writes_spread P (sites ! j) (net_hosts s ! j))"
proof -
  have wire: "net_wire s = concat (map (report_datagrams P A sites) (net_reports s))"
    using traffic_inv_reachable [OF assms] by (simp add: traffic_inv_def)
  have "length (report_datagrams P A sites r) \<le> 1" for r
    by (simp add: report_datagrams_def lan_form_def split: radio_frame.split)
  then have "length (concat (map (report_datagrams P A sites) rs)) \<le> length rs" for rs
    by (induction rs) (auto simp: add_le_mono [of _ 1, simplified])
  moreover have "writes_spread P (sites ! j) (net_hosts s ! j)" if "j < length sites" for j
    using hosts_inv_reachable [OF assms(1)] that by (intro session_writes_spread [of P A]) (simp add: hosts_inv_def)
  ultimately show ?thesis using wire by simp
qed

theorem network_no_storm_witness:
  "net_wire sample_net = report_datagrams sample_proto sample_aes sample_sites (0, sample_report) \<and>
   net_wire sample_net = [(0, sample_datagram)] \<and> net_echoes sample_net = [(1, sample_echo)] \<and>
   writes_spread sample_proto (sample_sites ! 1) (net_hosts sample_net ! 1)"
  using network_no_storm [OF sample_net_reachable sample_radio_keeps_stamp] by (auto simp: sample_net_wire)



text \<open>C4: every frame a bridge writes to its radio is a heartbeat, on a tick of its timer and never with the nonce that makes
  radios exchange node information, or the form, for that radio, of a packet that the radio of another bridge reported
  of its own, that did not come from the LAN or MQTT, and that is from another node; with the
  phone ingress and matching channels it is that very packet, on the local channel index.\<close>

theorem network_writes_accounted:
  assumes "net_reachable P A R sites s" and "keeps_stamp P R" and "j < length sites"
    and "\<forall>(i, payload) \<in> set (net_reports s). travels P A (site_bridge (sites ! i)) payload"
    and "(ev, effs) \<in> set (h_log (net_hosts s ! j))" and "Write_serial w \<in> set effs"
  shows "if ev = Tick then (\<exists>nonce. nonce \<noteq> HEARTBEAT_NONCE_NODEINFO_PING \<and> w = heartbeat_frame P nonce)
    else (\<exists>i payload p. (i, payload) \<in> set (net_reports s) \<and> i \<noteq> j \<and> decode_frame P payload = Packet p \<and>
      \<not> lan_originated P p \<and> \<not> mp_pki_encrypted p \<and> mp_from p \<noteq> 0 \<and> mp_from p \<noteq> bc_my_node_num (fst (sites ! j)) \<and>
      relay P A (site_bridge (sites ! j)) (encrypt_packet P A (site_bridge (sites ! i)) p) = Some w \<and>
      (bc_ingress (fst (sites ! j)) = Phone \<and> crosses P A (site_bridge (sites ! i)) (site_bridge (sites ! j)) p \<longrightarrow>
         w = write_packet P (arrival P (site_bridge (sites ! i)) (site_bridge (sites ! j)) p)))"
proof -
  let ?b = "site_bridge (sites ! j)" and ?h = "net_hosts s ! j"
  have host: "host_inv P A (sites ! j) ?h" and all: "\<forall>ev \<in> set (map fst (h_log ?h)). heard s j ev"
    using hosts_inv_reachable [OF assms(1)] assms(3) by (simp_all add: hosts_inv_def)
  obtain r n where ok: "recent_ok r" and eff: "effs = snd (loop_step P A (?b\<lparr>br_recent := r\<rparr>, n) ev)"
    using host_log_entry [OF host assms(5)] by blast
  have config: "br_config ?b = fst (sites ! j)" by (simp add: site_bridge_def Bridge_new_def)
  show ?thesis
  proof (cases "ev = Tick")
    case True
    with eff assms(6) next_nonce_no_ping show ?thesis by (auto simp: loop_step_tick)
  next
    case False
    then have eff: "effs = snd (bridge_step P A (?b\<lparr>br_recent := r\<rparr>) ev)" using eff by (simp add: loop_step_handler)
    from assms(6) have "w \<in> set (serial_writes effs)" by (force simp: serial_writes_def)
    then obtain data where ev: "ev = UdpPacket data"
      using write_needs [of "?b\<lparr>br_recent := r\<rparr>" w P A ev] ok eff by auto
    with all assms(5) obtain i d where d: "(i, d) \<in> set (net_wire s)" "i \<noteq> j" "data = take 600 d"
      by (force simp: heard_def)
    obtain payload where rep: "(i, payload) \<in> set (net_reports s)"
        and sent: "d \<in> set (lan_form P A (site_bridge (sites ! i)) payload)"
      by (rule wire_origin [OF traffic_inv_reachable [OF assms(1,2)] d(1)])
    obtain p where p: "decode_frame P payload = Packet p" "\<not> lan_originated P p" "\<not> mp_pki_encrypted p"
        "d = encode_mesh_packet P (encrypt_packet P A (site_bridge (sites ! i)) p)"
      by (rule sent_is_report [OF sent])
    let ?q = "encrypt_packet P A (site_bridge (sites ! i)) p"
    from assms(4) rep have "travels P A (site_bridge (sites ! i)) payload" by blast
    with p d(3) have "decode_packet P data = Some ?q" by (simp add: travels_def decode_packet_def)
    from written_is_relay [OF _ _ this, of "?b\<lparr>br_recent := r\<rparr>" w A] ok eff ev assms(6)
    have w: "relay P A ?b ?q = Some w" "mp_from p \<noteq> 0" "mp_from p \<noteq> bc_my_node_num (fst (sites ! j))"
      by (simp_all add: config)
    have "w = write_packet P (arrival P (site_bridge (sites ! i)) ?b p)"
      if "bc_ingress (fst (sites ! j)) = Phone" and "crosses P A (site_bridge (sites ! i)) ?b p"
      using w(1) that(1) crosses_decrypts(1) [OF that(2)] by (simp add: relay_def config arrival_def)
    with rep d(2) p(1-3) w False show ?thesis by auto
  qed
qed

theorem network_writes_accounted_witness:
  "(\<exists>nonce. nonce \<noteq> 1 \<and> heartbeat_frame sample_proto 2 = heartbeat_frame sample_proto nonce) \<and>
   (\<exists>i payload. (i, payload) \<in> set (net_reports sample_net) \<and> i \<noteq> 1 \<and> decode_frame sample_proto payload = Packet hello)"
proof
  obtain effs where "h_log (net_hosts sample_net ! 1) =
     [(UdpPacket sample_datagram, [Write_serial sample_write]), (UdpPacket sample_datagram, effs),
      (Tick, [Write_serial (heartbeat_frame sample_proto 2)]), (SerialFrame sample_echo, [])]"
    using sample_net_log by blast
  then have log: "(UdpPacket sample_datagram, [Write_serial sample_write]) \<in> set (h_log (net_hosts sample_net ! 1))"
      "(Tick, [Write_serial (heartbeat_frame sample_proto 2)]) \<in> set (h_log (net_hosts sample_net ! 1))" by simp_all
  have travels: "\<forall>(i, payload) \<in> set (net_reports sample_net).
      travels sample_proto sample_aes (site_bridge (sample_sites ! i)) payload"
    using sample_hello_crosses by (auto simp: sample_net_wire travels_def sample_report_decoded crosses_def codec_at_def)
  note accounted = network_writes_accounted [OF sample_net_reachable sample_radio_keeps_stamp _ travels]
  show "\<exists>i payload. (i, payload) \<in> set (net_reports sample_net) \<and> i \<noteq> 1 \<and> decode_frame sample_proto payload = Packet hello"
    using accounted [OF _ log(1), of sample_write] by (auto simp: sample_net_wire sample_report_decoded)
  show "\<exists>nonce. nonce \<noteq> 1 \<and> heartbeat_frame sample_proto 2 = heartbeat_frame sample_proto nonce"
    using accounted [OF _ log(2), of "heartbeat_frame sample_proto 2"]
    by (auto simp: sample_net_wire HEARTBEAT_NONCE_NODEINFO_PING_def)
qed

text \<open>C32: in every reachable state of the network each bridge is well-formed: it has the settings and channels
  of its radio, and its queue and set of recent packets agree and hold at most 1024 distinct packets, each of an
  event of the session.\<close>

theorem network_well_formed:
  assumes "net_reachable P A R sites s" and "j < length sites"
  shows "br_config (h_bridge (net_hosts s ! j)) = fst (sites ! j) \<and>
    br_channels (h_bridge (net_hosts s ! j)) = snd (sites ! j) \<and>
    seen (br_recent (h_bridge (net_hosts s ! j))) = set (order (br_recent (h_bridge (net_hosts s ! j)))) \<and>
    distinct (order (br_recent (h_bridge (net_hosts s ! j)))) \<and>
    length (order (br_recent (h_bridge (net_hosts s ! j)))) \<le> RECENT_PACKETS_CAPACITY \<and>
    (\<forall>k \<in> seen (br_recent (h_bridge (net_hosts s ! j))). \<exists>n < length (h_log (net_hosts s ! j)).
       log_key P (sites ! j) (net_hosts s ! j) n = Some k)"
proof -
  let ?h = "net_hosts s ! j"
  have host: "host_inv P A (sites ! j) ?h"
    using hosts_inv_reachable [OF assms(1)] assms(2) by (simp add: hosts_inv_def)
  have inv: "bridge_inv (fst (sites ! j)) (snd (sites ! j)) (h_bridge ?h)" by (rule host_bridge_inv [OF host])
  have "\<exists>n < length (h_log ?h). log_key P (sites ! j) ?h n = Some k" if "k \<in> set (order (br_recent (h_bridge ?h)))" for k
  proof -
    from that host have "k \<in> set (order (br_recent (h_bridge (foldl (host_step P A) (host_new (sites ! j)) (map fst (h_log ?h))))))"
      by (simp add: host_inv_def)
    from memory_origin [OF this] obtain n where "n < length (map fst (h_log ?h))"
        "event_key P (site_bridge (sites ! j)) (map fst (h_log ?h) ! n) = Some k"
      by (metis in_set_conv_nth)
    then show ?thesis by (auto simp: log_key_def)
  qed
  with inv show ?thesis
    by (auto simp: bridge_inv_def recent_ok_def window_size_def RECENT_PACKETS_CAPACITY_def)
qed

theorem network_well_formed_witness:
  "br_channels (h_bridge (net_hosts sample_net ! 1)) = [sample_channel 3] \<and>
   length (order (br_recent (h_bridge (net_hosts sample_net ! 1)))) \<le> 1024"
  using network_well_formed [OF sample_net_reachable, of 1] by (simp add: sample_sites_def RECENT_PACKETS_CAPACITY_def)

end
