(* ===== verification/Raven.thy ===== *)
theory Raven
  imports Crypto Proto Sample "HOL-Library.List_Lexorder" "HOL-Library.Char_ord"
begin

text \<open>
  Model of \<open>src/raven.rs\<close>: the deep merge of two JSON documents, loading Raven's channel list, and the
  merge of that list into the channels the radio reported.  The JSON parser, the derived
  deserialisation into \<open>RavenConfig\<close>, the base64 decoder and the file system are parameters.  A JSON
  object is the map of \<open>serde_json\<close> without \<open>preserve_order\<close>: a list of members in the order of their
  keys.  A number is kept as its literal.  Messages of errors leave out the text they interpolate.
\<close>

section \<open>JSON values\<close>

datatype json =
    Json_null
  | Json_bool bool
  | Json_number string
  | Json_string string
  | Json_array "json list"
  | Json_object "(string \<times> json) list"

fun is_object :: "json \<Rightarrow> bool" where
  "is_object (Json_object _) = True"
| "is_object _ = False"

fun obj_insert :: "string \<Rightarrow> json \<Rightarrow> (string \<times> json) list \<Rightarrow> (string \<times> json) list" where
  "obj_insert k v [] = [(k, v)]"
| "obj_insert k v ((k', v') # m) =
     (if k = k' then (k, v) # m
      else if k < k' then (k, v) # (k', v') # m
      else (k', v') # obj_insert k v m)"

definition obj_remove :: "string \<Rightarrow> (string \<times> json) list \<Rightarrow> (string \<times> json) list" where
  "obj_remove k m = filter (\<lambda>kv. fst kv \<noteq> k) m"

text \<open>\<open>entry_object\<close> is the entry for the key, made an empty object if it is absent or not an object.\<close>

definition entry_object :: "string \<Rightarrow> (string \<times> json) list \<Rightarrow> json" where
  "entry_object k m = (case map_of m k of
     Some entry \<Rightarrow> if is_object entry then entry else Json_object []
   | None \<Rightarrow> Json_object [])"

function deep_merge :: "json \<Rightarrow> json \<Rightarrow> json"
  and merge_members :: "(string \<times> json) list \<Rightarrow> (string \<times> json) list \<Rightarrow> (string \<times> json) list" where
  "deep_merge base override_val = (case (base, override_val) of
     (Json_object base_obj, Json_object over_obj) \<Rightarrow> Json_object (merge_members base_obj over_obj)
   | _ \<Rightarrow> base)"
| "merge_members base_obj [] = base_obj"
| "merge_members base_obj ((k, v) # over_obj) =
     merge_members
       (if v = Json_null then obj_remove k base_obj
        else if is_object v then obj_insert k (deep_merge (entry_object k base_obj) v) base_obj
        else obj_insert k v base_obj)
       over_obj"
  by pat_completeness auto
termination
  by (relation "measure (\<lambda>x. case x of Inl (_, v) \<Rightarrow> 2 * size v | Inr (_, m) \<Rightarrow> 2 * size_list (size_prod (\<lambda>_. 0) size) m + 1)")
     (auto split: prod.splits)

declare deep_merge.simps [simp del]

section \<open>Loading the channel list\<close>

record parsed_raven_channel =
  rc_name :: string
  rc_psk :: bytes

definition RAVEN_CONF_PATH :: string where "RAVEN_CONF_PATH = ''/usr/local/raven/raven.conf''"
definition RAVEN_CONF_OVERRIDE_PATH :: string where
  "RAVEN_CONF_OVERRIDE_PATH = ''/usr/local/raven/raven.conf.override''"

text \<open>\<open>namekeys\<close> is the derived deserialisation: the \<open>namekey\<close> of each member of \<open>channels\<close>.\<close>

record raven_env =
  read_to_string :: "string \<Rightarrow> string io_result"
  json_from_str :: "string \<Rightarrow> string + json"
  namekeys :: "json \<Rightarrow> string + string list"
  base64_decode :: "string \<Rightarrow> string + bytes"

definition rsplit_once_space :: "string \<Rightarrow> (string \<times> string) option" where
  "rsplit_once_space s =
     (if CHR '' '' \<in> set s
      then Some (rev (tl (dropWhile (\<lambda>c. c \<noteq> CHR '' '') (rev s))), rev (takeWhile (\<lambda>c. c \<noteq> CHR '' '') (rev s)))
      else None)"

definition parse_namekey :: "raven_env \<Rightarrow> string \<Rightarrow> string + parsed_raven_channel" where
  "parse_namekey E namekey = (case rsplit_once_space namekey of
     None \<Rightarrow> Inl ''invalid namekey (no space separator)''
   | Some (name, b64) \<Rightarrow>
       (case base64_decode E b64 of
          Inl e \<Rightarrow> Inl ''invalid base64 in namekey''
        | Inr psk \<Rightarrow> Inr \<lparr>rc_name = name, rc_psk = psk\<rparr>))"

definition invalid_data :: "string + 'a \<Rightarrow> 'a io_result" where
  "invalid_data r = (case r of Inl msg \<Rightarrow> Inl (Io_error InvalidData msg) | Inr x \<Rightarrow> Inr x)"

fun parse_namekeys :: "raven_env \<Rightarrow> string list \<Rightarrow> parsed_raven_channel list io_result" where
  "parse_namekeys E [] = Inr []"
| "parse_namekeys E (nk # nks) =
     bind_result (invalid_data (parse_namekey E nk)) (\<lambda>parsed.
       bind_result (parse_namekeys E nks) (\<lambda>channels. Inr (parsed # channels)))"

definition load_raven_channels_with_override ::
  "raven_env \<Rightarrow> string \<Rightarrow> string \<Rightarrow> parsed_raven_channel list option io_result" where
  "load_raven_channels_with_override E base_path override_path = (case read_to_string E base_path of
     Inl e \<Rightarrow> if error_kind e = NotFound then Inr None else Inl e
   | Inr base_content \<Rightarrow>
       bind_result (invalid_data (json_from_str E base_content)) (\<lambda>config_value.
       bind_result
         (case read_to_string E override_path of
            Inr override_content \<Rightarrow>
              bind_result (invalid_data (json_from_str E override_content)) (\<lambda>override_value.
                Inr (if is_object override_value then deep_merge config_value override_value else config_value))
          | Inl e \<Rightarrow> if error_kind e = NotFound then Inr config_value else Inl e) (\<lambda>config_value.
       bind_result (invalid_data (namekeys E config_value)) (\<lambda>nks.
       bind_result (parse_namekeys E nks) (\<lambda>channels. Inr (Some channels))))))"

definition load_raven_channels :: "raven_env \<Rightarrow> parsed_raven_channel list option io_result" where
  "load_raven_channels E = load_raven_channels_with_override E RAVEN_CONF_PATH RAVEN_CONF_OVERRIDE_PATH"

section \<open>Merging the channels\<close>

definition make_channel_proto :: "'x proto \<Rightarrow> i32 \<Rightarrow> i32 \<Rightarrow> string \<Rightarrow> bytes \<Rightarrow> 'x channel" where
  "make_channel_proto P index role name psk =
     \<lparr>ch_index = index, ch_role = role,
      ch_settings = Some ((channel_settings_default P)\<lparr>cs_psk := psk, cs_name := name\<rparr>)\<rparr>"

record 'x merge_result =
  mr_channels :: "channel_key list"
  mr_to_install :: "'x channel list"

definition effective :: "string \<Rightarrow> parsed_raven_channel \<Rightarrow> channel_key \<Rightarrow> bool" where
  "effective default_name rc c \<longleftrightarrow>
     ck_name c = rc_name rc \<or> (ck_name c = [] \<and> ck_index c = 0 \<and> rc_name rc = default_name)"

record 'x merge_state =
  ms_merged :: "channel_key list"
  ms_install :: "'x channel list"
  ms_max_index :: u32

text \<open>One iteration of the loop over Raven's channels; \<open>max_index += 1\<close> wraps in a release build.\<close>

definition merge_one :: "'x proto \<Rightarrow> string \<Rightarrow> parsed_raven_channel \<Rightarrow> 'x merge_state \<Rightarrow> 'x merge_state" where
  "merge_one P default_name rc st = (case position (effective default_name rc) (ms_merged st) of
     Some i \<Rightarrow>
       (let existing = ms_merged st ! i;
            new_ck = channel_key_from_proto (ck_index existing) (rc_name rc) (rc_psk rc) in
        if ck_key existing \<noteq> ck_key new_ck then
          (let role = (if ck_index existing = 0 then 1 else 2) in
           st\<lparr>ms_install := ms_install st @ [make_channel_proto P (ck_index existing) role (rc_name rc) (rc_psk rc)],
              ms_merged := (ms_merged st)[i := new_ck]\<rparr>)
        else st)
   | None \<Rightarrow>
       (let max_index = ms_max_index st + 1;
            ck = channel_key_from_proto max_index (rc_name rc) (rc_psk rc) in
        st\<lparr>ms_max_index := max_index,
           ms_install := ms_install st @ [make_channel_proto P max_index 2 (rc_name rc) (rc_psk rc)],
           ms_merged := ms_merged st @ [ck]\<rparr>))"

definition max_index_of :: "channel_key list \<Rightarrow> u32" where
  "max_index_of cks = fold (\<lambda>c m. max (ck_index c) m) cks 0"

definition merge_channels ::
  "'x proto \<Rightarrow> channel_key list \<Rightarrow> parsed_raven_channel list \<Rightarrow> i32 \<Rightarrow> 'x merge_result" where
  "merge_channels P device_channels raven_channels modem_preset =
     (let st = fold (merge_one P (modem_preset_name modem_preset)) raven_channels
                 \<lparr>ms_merged = device_channels, ms_install = [], ms_max_index = max_index_of device_channels\<rparr>
      in \<lparr>mr_channels = ms_merged st, mr_to_install = ms_install st\<rparr>)"

section \<open>Ordered objects\<close>

text \<open>The maps of \<open>serde_json\<close> have their keys in strictly increasing order.\<close>

function json_ok :: "json \<Rightarrow> bool" where
  "json_ok j = (case j of
     Json_object m \<Rightarrow> sorted_wrt (<) (map fst m) \<and> (\<forall>kv \<in> set m. json_ok (snd kv))
   | Json_array js \<Rightarrow> (\<forall>j \<in> set js. json_ok j)
   | _ \<Rightarrow> True)"
  by pat_completeness auto
termination
proof (relation "measure size")
  fix m and kv :: "string \<times> json"
  assume "kv \<in> set m"
  then have "size_prod (\<lambda>_. 0) size kv < Suc (size_list (size_prod (\<lambda>_. 0) size) m)"
    by (simp add: size_list_estimation' less_Suc_eq_le)
  then show "(snd kv, j) \<in> measure size" if "j = Json_object m" for j
    using that by (cases kv) simp
next
  fix js and j' :: json
  assume "j' \<in> set js"
  then have "size j' < Suc (size_list size js)"
    by (simp add: size_list_estimation' less_Suc_eq_le)
  then show "(j', j) \<in> measure size" if "j = Json_array js" for j
    using that by simp
qed simp

declare json_ok.simps [simp del]

lemma json_ok_simps [simp]:
  "json_ok (Json_object m) \<longleftrightarrow> sorted_wrt (<) (map fst m) \<and> (\<forall>kv \<in> set m. json_ok (snd kv))"
  "json_ok (Json_array js) \<longleftrightarrow> (\<forall>j \<in> set js. json_ok j)"
  "json_ok Json_null" "json_ok (Json_bool b)" "json_ok (Json_number n)" "json_ok (Json_string s)"
  by (simp_all add: json_ok.simps)

lemma map_of_obj_insert [simp]: "map_of (obj_insert k v m) = (map_of m)(k \<mapsto> v)"
  by (induction k v m rule: obj_insert.induct) (auto simp: fun_eq_iff)

lemma map_of_obj_remove [simp]: "map_of (obj_remove k m) = (map_of m)(k := None)"
  by (induction m) (auto simp: obj_remove_def fun_eq_iff)

lemma set_obj_insert: "set (obj_insert k v m) \<subseteq> insert (k, v) (set m)"
  by (induction k v m rule: obj_insert.induct) auto

lemma keys_obj_insert: "fst ` set (obj_insert k v m) = insert k (fst ` set m)"
  by (induction k v m rule: obj_insert.induct) auto

lemma sorted_obj_insert: "sorted_wrt (<) (map fst m) \<Longrightarrow> sorted_wrt (<) (map fst (obj_insert k v m))"
proof (induction k v m rule: obj_insert.induct)
  case (2 k v k' v' m)
  have "k' < x" if "x \<in> fst ` set (obj_insert k v m)" and "k \<noteq> k'" and "\<not> k < k'" for x
  proof -
    have "x = k \<or> x \<in> fst ` set m" using that(1) by (simp add: keys_obj_insert)
    then show ?thesis
    proof
      assume "x \<in> fst ` set m"
      then show ?thesis using "2.prems" by auto
    qed (use that in auto)
  qed
  with 2 show ?case by (auto intro: order.strict_trans)
qed simp

lemma sorted_obj_remove: "sorted_wrt (<) (map fst m) \<Longrightarrow> sorted_wrt (<) (map fst (obj_remove k m))"
  by (induction m) (auto simp: obj_remove_def)

lemma sorted_distinct_keys: "sorted_wrt (<) (map fst m) \<Longrightarrow> distinct (map fst (m :: (string \<times> json) list))"
  by (induction m) auto

lemma sorted_maps_eq:
  assumes "sorted_wrt (<) (map fst m)" and "sorted_wrt (<) (map fst m')" and "map_of m = map_of m'"
  shows "m = (m' :: (string \<times> json) list)"
proof -
  have keys: "map fst m = map fst m'"
  proof (rule sorted_distinct_set_unique)
    show "sorted (map fst m)" "sorted (map fst m')"
      using assms(1,2) by (auto intro: sorted_wrt_mono_rel [of _ "(<)" "(\<le>)"])
    show "distinct (map fst m)" "distinct (map fst m')"
      using assms(1,2) by (simp_all only: sorted_distinct_keys)
    show "set (map fst m) = set (map fst m')"
      using assms(3) by (metis dom_map_of_conv_image_fst list.set_map)
  qed
  have rebuild: "x = map (\<lambda>k. (k, the (map_of x k))) (map fst x)" if "distinct (map fst x)"
    for x :: "(string \<times> json) list"
    using that by (auto simp: comp_def intro!: map_idI [symmetric])
  show ?thesis
    using rebuild [OF sorted_distinct_keys [OF assms(1)]] rebuild [OF sorted_distinct_keys [OF assms(2)]] keys assms(3)
    by simp
qed

section \<open>Deep merge\<close>

lemma deep_merge_objects [simp]:
  "deep_merge (Json_object b) (Json_object m) = Json_object (merge_members b m)"
  by (simp add: deep_merge.simps)

lemma deep_merge_no_object: "\<not> is_object b \<or> \<not> is_object m \<Longrightarrow> deep_merge b m = b"
  by (cases b; cases m) (simp_all add: deep_merge.simps)

lemma is_object_deep_merge [simp]: "is_object (deep_merge b m) = is_object b"
  by (cases b; cases m) (simp_all add: deep_merge.simps)

text \<open>The effect of the loop on one key.\<close>

definition object_or_empty :: "json option \<Rightarrow> json" where
  "object_or_empty b = (case b of Some entry \<Rightarrow> if is_object entry then entry else Json_object [] | None \<Rightarrow> Json_object [])"

definition merged_entry :: "json option \<Rightarrow> json option \<Rightarrow> json option" where
  "merged_entry b ov = (case ov of
     None \<Rightarrow> b
   | Some v \<Rightarrow>
       if v = Json_null then None
       else if is_object v then Some (deep_merge (object_or_empty b) v)
       else Some v)"

lemma is_object_object_or_empty [simp]: "is_object (object_or_empty b)"
  by (simp add: object_or_empty_def split: option.split)

lemma entry_object_eq: "entry_object k m = object_or_empty (map_of m k)"
  by (simp add: entry_object_def object_or_empty_def)

lemma map_of_merge_members:
  "distinct (map fst over) \<Longrightarrow> map_of (merge_members b over) k = merged_entry (map_of b k) (map_of over k)"
proof (induction over arbitrary: b)
  case Nil
  then show ?case by (simp add: merged_entry_def)
next
  case (Cons kv over)
  obtain k' v where kv: "kv = (k', v)" by fastforce
  then have "map_of over k' = None" and "distinct (map fst over)"
    using Cons.prems by (simp_all add: map_of_eq_None_iff)
  note rest = Cons.IH [OF this(2)] this(1)
  show ?case
  proof (cases "k = k'")
    case True
    with rest(2) have "map_of over k = None" by simp
    with rest(1) show ?thesis
      unfolding True [symmetric] kv by (simp add: entry_object_eq) (simp add: merged_entry_def)
  next
    case False
    then show ?thesis by (simp add: kv rest)
  qed
qed

lemma merge_members_sorted:
  "sorted_wrt (<) (map fst b) \<Longrightarrow> sorted_wrt (<) (map fst (merge_members b over))"
proof (induction over arbitrary: b)
  case (Cons kv over)
  then show ?case by (cases kv) (simp add: sorted_obj_insert sorted_obj_remove)
qed simp

lemma json_ok_object_or_empty: "(\<And>e. b = Some e \<Longrightarrow> json_ok e) \<Longrightarrow> json_ok (object_or_empty b)"
  by (simp add: object_or_empty_def split: option.split)

lemma json_ok_lookup: "sorted_wrt (<) (map fst (m :: (string \<times> json) list)) \<Longrightarrow>
    (\<forall>kv \<in> set m. json_ok (snd kv)) \<longleftrightarrow> (\<forall>k v. map_of m k = Some v \<longrightarrow> json_ok v)"
  using map_of_eq_Some_iff [OF sorted_distinct_keys, of m] by auto

lemma json_ok_deep_merge: "json_ok b \<Longrightarrow> json_ok over \<Longrightarrow> json_ok (deep_merge b over)"
proof (induction over arbitrary: b)
  case (Json_object m)
  show ?case
  proof (cases b)
    case (Json_object bm)
    have sorted: "sorted_wrt (<) (map fst (merge_members bm m))" "sorted_wrt (<) (map fst m)" "sorted_wrt (<) (map fst bm)"
      using Json_object Json_object.prems by (simp_all add: merge_members_sorted)
    have "json_ok v" if v: "map_of (merge_members bm m) k = Some v" for k v
    proof -
      have b: "json_ok e" if "map_of bm k = Some e" for e
        using that Json_object Json_object.prems(1) json_ok_lookup [OF sorted(3)] by auto
      have m: "json_ok u" "(k, u) \<in> set m" if "map_of m k = Some u" for u
        using that Json_object.prems(2) json_ok_lookup [OF sorted(2)] by (auto dest: map_of_SomeD)
      have "json_ok (deep_merge (object_or_empty (map_of bm k)) u)" if u: "map_of m k = Some u" for u
        by (rule Json_object.IH [OF m(2) [OF u]]) (auto simp: b m(1) [OF u] intro: json_ok_object_or_empty)
      with v m(1) b show ?thesis
        by (auto simp: map_of_merge_members sorted_distinct_keys sorted(2) merged_entry_def split: option.splits if_splits)
    qed
    with sorted(1) Json_object show ?thesis by (simp add: json_ok_lookup)
  qed (use Json_object.prems in \<open>simp_all add: deep_merge_no_object\<close>)
qed (simp_all add: deep_merge_no_object)

lemma deep_merge_idem: "json_ok b \<Longrightarrow> json_ok over \<Longrightarrow> deep_merge (deep_merge b over) over = deep_merge b over"
proof (induction over arbitrary: b)
  case (Json_object m)
  show ?case
  proof (cases b)
    case (Json_object bm)
    have sorted: "sorted_wrt (<) (map fst bm)" "sorted_wrt (<) (map fst m)"
      using Json_object Json_object.prems by simp_all
    have "merged_entry (merged_entry (map_of bm k) (map_of m k)) (map_of m k) = merged_entry (map_of bm k) (map_of m k)" for k
    proof -
      have "deep_merge (deep_merge (object_or_empty (map_of bm k)) u) u = deep_merge (object_or_empty (map_of bm k)) u"
        if u: "map_of m k = Some u" for u
      proof (rule Json_object.IH [OF map_of_SomeD [OF u]])
        show "json_ok (object_or_empty (map_of bm k))"
          using Json_object Json_object.prems(1) json_ok_lookup [OF sorted(1)] by (auto intro: json_ok_object_or_empty)
        show "json_ok u" using u Json_object.prems(2) json_ok_lookup [OF sorted(2)] by auto
      qed simp
      then show ?thesis
        by (auto simp: merged_entry_def object_or_empty_def split: option.split)
    qed
    then have "map_of (merge_members (merge_members bm m) m) = map_of (merge_members bm m)"
      by (simp add: fun_eq_iff map_of_merge_members sorted_distinct_keys [OF sorted(2)])
    then show ?thesis
      using Json_object sorted by (simp add: sorted_maps_eq merge_members_sorted)
  qed (simp_all add: deep_merge_no_object)
qed (simp_all add: deep_merge_no_object)

section \<open>Merging the channels: lemmas\<close>

text \<open>The table of channels by index, and what installing a channel does to the radio's table.\<close>

definition table :: "channel_key list \<Rightarrow> u32 \<Rightarrow> channel_key option" where
  "table cks = map_of (map (\<lambda>c. (ck_index c, c)) cks)"

definition install :: "'x channel \<Rightarrow> (u32 \<Rightarrow> channel_key option) \<Rightarrow> (u32 \<Rightarrow> channel_key option)" where
  "install ch t = (case ch_settings ch of
     None \<Rightarrow> t
   | Some s \<Rightarrow> t(ch_index ch \<mapsto> channel_key_from_proto (ch_index ch) (cs_name s) (cs_psk s)))"

lemma install_made [simp]:
  "install (make_channel_proto P i role name psk) t = t(i \<mapsto> channel_key_from_proto i name psk)"
  by (simp add: install_def make_channel_proto_def)

lemma table_append: "ck_index c \<notin> ck_index ` set cks \<Longrightarrow> table (cks @ [c]) = (table cks)(ck_index c \<mapsto> c)"
proof -
  assume "ck_index c \<notin> ck_index ` set cks"
  then have "map_of (map (\<lambda>c. (ck_index c, c)) cks) (ck_index c) = None"
    by (simp add: map_of_eq_None_iff image_image)
  then show ?thesis by (auto simp: table_def fun_eq_iff map_add_def split: option.split)
qed

lemma table_update:
  "distinct (map ck_index cks) \<Longrightarrow> i < length cks \<Longrightarrow> ck_index c = ck_index (cks ! i) \<Longrightarrow>
    table (cks[i := c]) = (table cks)(ck_index c \<mapsto> c)"
proof (induction cks arbitrary: i)
  case (Cons k cks)
  show ?case
  proof (cases i)
    case 0
    with Cons.prems show ?thesis by (auto simp: table_def fun_eq_iff)
  next
    case (Suc j)
    with Cons.prems have "cks ! j \<in> set cks" by simp
    with Suc Cons.prems have "ck_index c \<noteq> ck_index k" by (metis distinct.simps(2) image_eqI list.map(2) list.set_map nth_Cons_Suc)
    with Suc Cons show ?thesis by (auto simp: table_def fun_eq_iff)
  qed
qed simp

definition merge_ok :: "nat \<Rightarrow> 'x merge_state \<Rightarrow> bool" where
  "merge_ok room st \<longleftrightarrow> distinct (map ck_index (ms_merged st)) \<and>
     (\<forall>c \<in> set (ms_merged st). ck_index c \<le> ms_max_index st) \<and> unat (ms_max_index st) + room < 2 ^ 32"

lemma max_index_step:
  assumes "unat (m :: u32) + Suc room < 2 ^ 32"
  shows "unat (m + 1) = Suc (unat m)"
  using assms by (simp add: unat_plus_if_size word_size)

lemma max_index_of_ge: "c \<in> set cks \<Longrightarrow> ck_index c \<le> max_index_of cks"
proof -
  have "m0 \<le> fold (\<lambda>c m. max (ck_index c) m) cks m0 \<and> (\<forall>c \<in> set cks. ck_index c \<le> fold (\<lambda>c m. max (ck_index c) m) cks m0)"
    for cks and m0 :: u32
    by (induction cks arbitrary: m0) (auto intro: order_trans [OF max.cobounded2] order_trans [OF max.cobounded1])
  then show "c \<in> set cks \<Longrightarrow> ck_index c \<le> max_index_of cks" unfolding max_index_of_def by blast
qed

lemma merge_one_cases:
  obtains (same) i where "position (effective d rc) (ms_merged st) = Some i" and "i < length (ms_merged st)"
      and "ck_key (ms_merged st ! i) = expand_psk (rc_psk rc)" and "merge_one P d rc st = st"
    | (update) i role where "position (effective d rc) (ms_merged st) = Some i" and "i < length (ms_merged st)"
      and "merge_one P d rc st = st\<lparr>
        ms_install := ms_install st @ [make_channel_proto P (ck_index (ms_merged st ! i)) role (rc_name rc) (rc_psk rc)],
        ms_merged := (ms_merged st)[i := channel_key_from_proto (ck_index (ms_merged st ! i)) (rc_name rc) (rc_psk rc)]\<rparr>"
    | (new) "position (effective d rc) (ms_merged st) = None"
      and "merge_one P d rc st = st\<lparr>ms_max_index := ms_max_index st + 1,
        ms_install := ms_install st @ [make_channel_proto P (ms_max_index st + 1) 2 (rc_name rc) (rc_psk rc)],
        ms_merged := ms_merged st @ [channel_key_from_proto (ms_max_index st + 1) (rc_name rc) (rc_psk rc)]\<rparr>"
proof (cases "position (effective d rc) (ms_merged st)")
  case None
  then show thesis using new by (simp add: merge_one_def Let_def)
next
  case (Some i)
  note i = this conjunct1 [OF position_SomeD [OF Some]]
  show thesis
  proof (cases "ck_key (ms_merged st ! i) = expand_psk (rc_psk rc)")
    case True
    with i show thesis using same by (simp add: merge_one_def Let_def)
  next
    case False
    with i show thesis
      by (intro update [of i "if ck_index (ms_merged st ! i) = 0 then 1 else 2"]) (simp_all add: merge_one_def Let_def)
  qed
qed

lemma merge_one_ok:
  assumes "merge_ok (Suc room) st"
  shows "merge_ok room (merge_one P d rc st) \<and>
    (table (ms_merged st) = fold install (ms_install st) t0 \<longrightarrow>
     table (ms_merged (merge_one P d rc st)) = fold install (ms_install (merge_one P d rc st)) t0)"
proof (cases rule: merge_one_cases [of d rc st P])
  case (same i)
  with assms show ?thesis by (simp add: merge_ok_def)
next
  case (update i role)
  let ?c = "channel_key_from_proto (ck_index (ms_merged st ! i)) (rc_name rc) (rc_psk rc)"
  have "map ck_index ((ms_merged st)[i := ?c]) = map ck_index (ms_merged st)"
    using update(2) by (simp add: map_update list_update_same_conv)
  moreover have "ck_index c \<le> ms_max_index st" if "c \<in> set ((ms_merged st)[i := ?c])" for c
    using that assms update(2) set_update_subset_insert [of "ms_merged st" i ?c]
    by (fastforce simp: merge_ok_def)
  moreover have "table ((ms_merged st)[i := ?c]) = (table (ms_merged st))(ck_index (ms_merged st ! i) \<mapsto> ?c)"
    using table_update [of "ms_merged st" i ?c] update(2) assms by (simp add: merge_ok_def)
  ultimately show ?thesis
    using assms by (simp add: update(3) merge_ok_def)
next
  case new
  let ?m = "ms_max_index st + 1"
  let ?c = "channel_key_from_proto ?m (rc_name rc) (rc_psk rc)"
  have m: "unat ?m = Suc (unat (ms_max_index st))"
    using assms max_index_step by (auto simp: merge_ok_def)
  have less: "unat (ck_index c) < unat ?m" if "c \<in> set (ms_merged st)" for c
    using that assms by (auto simp: merge_ok_def m less_Suc_eq_le word_le_nat_alt)
  then have "?m \<notin> ck_index ` set (ms_merged st)" by (metis imageE order.irrefl)
  then have "table (ms_merged st @ [?c]) = (table (ms_merged st))(?m \<mapsto> ?c)"
    using table_append [of ?c] by simp
  with \<open>?m \<notin> _\<close> show ?thesis
    using assms less m by (auto simp: new(2) merge_ok_def word_le_nat_alt intro: less_imp_le)
qed

lemma merge_fold_ok:
  "merge_ok (length rcs) st \<Longrightarrow> table (ms_merged st) = fold install (ms_install st) t0 \<Longrightarrow>
    merge_ok 0 (fold (merge_one P d) rcs st) \<and>
    table (ms_merged (fold (merge_one P d) rcs st)) = fold install (ms_install (fold (merge_one P d) rcs st)) t0"
proof (induction rcs arbitrary: st)
  case (Cons rc rcs)
  then show ?case using merge_one_ok [of "length rcs" st P d rc t0] by simp
qed simp

definition settled :: "string \<Rightarrow> channel_key list \<Rightarrow> parsed_raven_channel \<Rightarrow> bool" where
  "settled d cks rc \<longleftrightarrow> (\<exists>i. position (effective d rc) cks = Some i \<and> ck_key (cks ! i) = expand_psk (rc_psk rc))"

lemma effective_named [simp]: "effective d rc (channel_key_from_proto i (rc_name rc) psk)"
  by (simp add: effective_def)

lemma merge_one_settles: "settled d (ms_merged (merge_one P d rc st)) rc"
proof (cases rule: merge_one_cases [of d rc st P])
  case (same i)
  then show ?thesis by (auto simp: settled_def)
next
  case (update i role)
  then show ?thesis by (auto simp: settled_def position_update_True)
next
  case new
  then show ?thesis by (auto simp: settled_def position_append nth_append)
qed

lemma merge_one_keeps_settled:
  assumes "settled d (ms_merged st) rc" and "rc_name rc' \<noteq> rc_name rc" and "rc_name rc \<noteq> []" and "rc_name rc' \<noteq> []"
  shows "settled d (ms_merged (merge_one P d rc' st)) rc"
proof (cases rule: merge_one_cases [of d rc' st P])
  case (same i)
  with assms show ?thesis by simp
next
  case (update i role)
  obtain j where j: "position (effective d rc) (ms_merged st) = Some j" "ck_key (ms_merged st ! j) = expand_psk (rc_psk rc)"
    using assms(1) by (auto simp: settled_def)
  have "\<not> effective d rc (channel_key_from_proto k (rc_name rc') psk)" for k psk
    using assms(2,4) by (simp add: effective_def)
  moreover have not_eff: "\<not> effective d rc (ms_merged st ! i)"
    using position_SomeD [OF update(1)] assms(2-4) by (auto simp: effective_def)
  moreover have "i \<noteq> j" using not_eff position_SomeD [OF j(1)] by auto
  ultimately show ?thesis
    using j update(2) by (simp add: update(3) settled_def position_update)
next
  case new
  with assms(1) position_SomeD show ?thesis by (fastforce simp: settled_def position_append nth_append)
qed

lemma merge_fold_keeps_settled:
  assumes "settled d (ms_merged st) rc" and "rc_name rc \<notin> rc_name ` set rcs" and "[] \<notin> rc_name ` set (rc # rcs)"
  shows "settled d (ms_merged (fold (merge_one P d) rcs st)) rc"
  using assms
proof (induction rcs arbitrary: st)
  case (Cons rc' rcs)
  have "settled d (ms_merged (merge_one P d rc' st)) rc"
    using Cons.prems by (intro merge_one_keeps_settled) auto
  with Cons show ?case by simp
qed simp

lemma merge_fold_settles:
  assumes "distinct (map rc_name rcs)" and "[] \<notin> rc_name ` set rcs" and "rc \<in> set rcs"
  shows "settled d (ms_merged (fold (merge_one P d) rcs st)) rc"
  using assms
proof (induction rcs arbitrary: st)
  case (Cons rc' rcs)
  show ?case
  proof (cases "rc = rc'")
    case True
    with Cons.prems merge_fold_keeps_settled [OF merge_one_settles, of rc rcs d P] show ?thesis by simp
  next
    case False
    with Cons show ?thesis by simp
  qed
qed simp

lemma merge_one_settled: "settled d (ms_merged st) rc \<Longrightarrow> merge_one P d rc st = st"
  by (auto simp: settled_def merge_one_def Let_def)

lemma merge_fold_settled: "\<forall>rc \<in> set rcs. settled d (ms_merged st) rc \<Longrightarrow> fold (merge_one P d) rcs st = st"
  by (induction rcs) (simp_all add: merge_one_settled)

lemma merge_one_untouched:
  assumes "j < length (ms_merged st)" and "\<not> effective d rc (ms_merged st ! j)"
  shows "j < length (ms_merged (merge_one P d rc st)) \<and> ms_merged (merge_one P d rc st) ! j = ms_merged st ! j"
proof (cases rule: merge_one_cases [of d rc st P])
  case (same i)
  with assms show ?thesis by simp
next
  case (update i role)
  with assms position_SomeD [OF update(1)] have "i \<noteq> j" by auto
  with update assms show ?thesis by simp
next
  case new
  with assms show ?thesis by (simp add: nth_append)
qed

lemma merge_fold_untouched:
  "j < length (ms_merged st) \<Longrightarrow> \<forall>rc \<in> set rcs. \<not> effective d rc (ms_merged st ! j) \<Longrightarrow>
    j < length (ms_merged (fold (merge_one P d) rcs st)) \<and>
    ms_merged (fold (merge_one P d) rcs st) ! j = ms_merged st ! j"
proof (induction rcs arbitrary: st)
  case (Cons rc rcs)
  then show ?case using merge_one_untouched [of j st d rc P] by simp
qed simp

lemma parse_namekeys_result:
  "case parse_namekeys E nks of
     Inl e \<Rightarrow> error_kind e = InvalidData
   | Inr channels \<Rightarrow> map Inr channels = map (parse_namekey E) nks"
  by (induction nks) (auto simp: invalid_data_def split: sum.splits elim: bind_result.elims)

section \<open>Properties\<close>

text \<open>C35: the deep merge acts key by key: a key the override does not mention keeps its value, \<open>null\<close>
  deletes it, an object is merged into the base's object (or into an empty one), and any other value,
  arrays included, replaces it.\<close>

theorem deep_merge_keywise:
  assumes "deep_merge (Json_object base) (Json_object over) = Json_object result"
    and "distinct (map fst over)"
  shows "map_of result k = (case map_of over k of
      None \<Rightarrow> map_of base k
    | Some Json_null \<Rightarrow> None
    | Some (Json_object obj) \<Rightarrow> Some (deep_merge
        (case map_of base k of Some (Json_object b) \<Rightarrow> Json_object b | _ \<Rightarrow> Json_object []) (Json_object obj))
    | Some v \<Rightarrow> Some v)"
  using assms map_of_merge_members [of over base k]
  by (auto simp: merged_entry_def object_or_empty_def split: option.splits json.splits)

theorem deep_merge_keywise_witness:
  "map_of [(''b'', Json_object [(''y'', Json_number ''2'')]), (''c'', Json_bool True)] ''a'' = None \<and>
   map_of [(''b'', Json_object [(''y'', Json_number ''2'')]), (''c'', Json_bool True)] ''c'' = Some (Json_bool True)"
proof -
  let ?base = "[(''a'', Json_number ''1''), (''b'', Json_string ''x''), (''c'', Json_bool True)]"
  let ?over = "[(''a'', Json_null), (''b'', Json_object [(''y'', Json_number ''2'')])]"
  let ?result = "[(''b'', Json_object [(''y'', Json_number ''2'')]), (''c'', Json_bool True)]"
  have "deep_merge (Json_object ?base) (Json_object ?over) = Json_object ?result"
    by (simp add: obj_remove_def entry_object_def)
  from deep_merge_keywise [OF this, of "''a''"] deep_merge_keywise [OF this, of "''c''"] show ?thesis
    by simp
qed

text \<open>Applying the same override twice is applying it once, and a document with ordered keys stays one.\<close>

theorem deep_merge_idempotent:
  assumes "json_ok base" and "json_ok over"
  shows "deep_merge (deep_merge base over) over = deep_merge base over \<and> json_ok (deep_merge base over)"
  using assms by (simp add: deep_merge_idem json_ok_deep_merge)

theorem deep_merge_idempotent_witness:
  "let over = Json_object [(''a'', Json_null), (''b'', Json_object [(''y'', Json_null)])];
       merged = deep_merge (Json_object [(''a'', Json_bool True)]) over
   in deep_merge merged over = merged"
  unfolding Let_def by (rule conjunct1 [OF deep_merge_idempotent]) simp_all

text \<open>A namekey is split at its last space, so channel names may contain spaces, and the part after it
  is decoded; a namekey without a space is an error.\<close>

theorem parse_namekey_roundtrip:
  assumes "CHR '' '' \<notin> set b64"
  shows "parse_namekey E (name @ '' '' @ b64) =
      (case base64_decode E b64 of
         Inl _ \<Rightarrow> Inl ''invalid base64 in namekey''
       | Inr psk \<Rightarrow> Inr \<lparr>rc_name = name, rc_psk = psk\<rparr>) \<and>
    (\<exists>e. parse_namekey E b64 = Inl e)"
proof -
  have "\<forall>c \<in> set (rev b64). c \<noteq> CHR '' ''" using assms by auto
  then have "takeWhile (\<lambda>c. c \<noteq> CHR '' '') (rev b64 @ CHR '' '' # rev name) = rev b64"
    and "dropWhile (\<lambda>c. c \<noteq> CHR '' '') (rev b64 @ CHR '' '' # rev name) = CHR '' '' # rev name"
    by (auto simp: takeWhile_append dropWhile_append)
  then have "rsplit_once_space (name @ '' '' @ b64) = Some (name, b64)"
    by (simp add: rsplit_once_space_def)
  with assms show ?thesis by (simp add: parse_namekey_def rsplit_once_space_def)
qed

definition sample_raven :: raven_env where
  "sample_raven = \<lparr>read_to_string = (\<lambda>_. Inl (Io_error NotFound [])), json_from_str = (\<lambda>_. Inl []),
     namekeys = (\<lambda>_. Inr []), base64_decode = (\<lambda>s. if s = ''AQ=='' then Inr [1] else Inl [])\<rparr>"

theorem parse_namekey_roundtrip_witness:
  "parse_namekey sample_raven (''My Net'' @ '' '' @ ''AQ=='') = Inr \<lparr>rc_name = ''My Net'', rc_psk = [1]\<rparr>"
  by (subst conjunct1 [OF parse_namekey_roundtrip]) (simp_all add: sample_raven_def)

definition overridden :: "json \<Rightarrow> json \<Rightarrow> json" where
  "overridden j ov = (if is_object ov then deep_merge j ov else j)"

text \<open>Loading returns no list exactly when there is no base file, whatever else is there; otherwise it
  fails with the first error, or returns one channel per namekey, in order.\<close>

theorem load_raven_result:
  "(case load_raven_channels_with_override E base over of
      Inr None \<Rightarrow> \<exists>e. read_to_string E base = Inl e \<and> error_kind e = NotFound
    | Inr (Some channels) \<Rightarrow> (\<exists>content j j' nks.
        read_to_string E base = Inr content \<and> json_from_str E content = Inr j \<and>
        (case read_to_string E over of
           Inl e \<Rightarrow> error_kind e = NotFound \<and> j' = j
         | Inr content' \<Rightarrow> \<exists>ov. json_from_str E content' = Inr ov \<and> j' = (overridden j ov)) \<and>
        namekeys E j' = Inr nks \<and> map Inr channels = map (parse_namekey E) nks)
    | Inl e \<Rightarrow> read_to_string E base = Inl e \<or> read_to_string E over = Inl e \<or> error_kind e = InvalidData)"
proof -
  define rest where "rest j' = bind_result (invalid_data (namekeys E j')) (\<lambda>nks.
       bind_result (parse_namekeys E nks) (\<lambda>channels. Inr (Some channels)))" for j'
  have rest: "case rest j' of
      Inl e \<Rightarrow> error_kind e = InvalidData
    | Inr None \<Rightarrow> False
    | Inr (Some channels) \<Rightarrow> (\<exists>nks. namekeys E j' = Inr nks \<and> map Inr channels = map (parse_namekey E) nks)" for j'
  proof (cases "namekeys E j'")
    case (Inr nks)
    then show ?thesis
      using parse_namekeys_result [of E nks] by (cases "parse_namekeys E nks") (simp_all add: rest_def invalid_data_def)
  qed (simp add: rest_def invalid_data_def)
  have load: "load_raven_channels_with_override E base over = (case read_to_string E base of
     Inl e \<Rightarrow> if error_kind e = NotFound then Inr None else Inl e
   | Inr content \<Rightarrow> (case json_from_str E content of
        Inl msg \<Rightarrow> Inl (Io_error InvalidData msg)
      | Inr j \<Rightarrow> (case read_to_string E over of
          Inr content' \<Rightarrow> (case json_from_str E content' of
              Inl msg \<Rightarrow> Inl (Io_error InvalidData msg)
            | Inr ov \<Rightarrow> rest (overridden j ov))
        | Inl e \<Rightarrow> if error_kind e = NotFound then rest j else Inl e)))"
    by (simp add: load_raven_channels_with_override_def invalid_data_def rest_def overridden_def split: sum.split)
  show ?thesis
  proof (cases "read_to_string E base")
    case (Inr content)
    show ?thesis
    proof (cases "json_from_str E content")
      case j: (Inr j)
      show ?thesis
      proof (cases "read_to_string E over")
        case (Inl e)
        with j \<open>read_to_string E base = _\<close> rest [of j] show ?thesis
          by (cases "rest j") (auto simp: load split: option.splits)
      next
        case over: (Inr content')
        show ?thesis
        proof (cases "json_from_str E content'")
          case (Inr ov)
          with over j \<open>read_to_string E base = _\<close> rest [of "overridden j ov"] show ?thesis
            by (cases "rest (overridden j ov)")
              (auto simp: load split: option.splits)
        qed (use j over \<open>read_to_string E base = _\<close> in \<open>simp add: load\<close>)
      qed
    qed (use Inr in \<open>simp add: load\<close>)
  qed (simp add: load)
qed

text \<open>C14: the channels to install are exactly what brings the radio to the merged list: installing them in
  order turns the table of the radio's channels into the table of the merged channels, which still have
  distinct indices, as long as the indices do not run past \<open>2 ^ 32 - 1\<close>.\<close>

theorem merge_installs_agree:
  assumes "distinct (map ck_index device)" and "unat (max_index_of device) + length rcs < 2 ^ 32"
  shows "table (mr_channels (merge_channels P device rcs preset)) =
      fold install (mr_to_install (merge_channels P device rcs preset)) (table device) \<and>
    distinct (map ck_index (mr_channels (merge_channels P device rcs preset)))"
proof -
  let ?st = "\<lparr>ms_merged = device, ms_install = [], ms_max_index = max_index_of device\<rparr>"
  have "merge_ok (length rcs) ?st" using assms max_index_of_ge by (simp add: merge_ok_def)
  from merge_fold_ok [OF this, of "table device" P "modem_preset_name preset"] show ?thesis
    by (simp add: merge_channels_def Let_def merge_ok_def)
qed

text \<open>C26: every Raven channel is in the merged list with Raven's key, and a device channel no Raven channel
  matches stays where and as it is, so the second merge, with the merged list as the device's,
  installs nothing.\<close>

theorem merge_complete_and_stable:
  assumes "distinct (map rc_name rcs)" and "[] \<notin> rc_name ` set rcs"
  shows "let r = merge_channels P device rcs preset in
    list_all (\<lambda>rc. list_ex (\<lambda>c. effective (modem_preset_name preset) rc c \<and> ck_key c = expand_psk (rc_psk rc)) (mr_channels r)) rcs \<and>
    (\<forall>j < length device. list_all (\<lambda>rc. \<not> effective (modem_preset_name preset) rc (device ! j)) rcs \<longrightarrow>
       j < length (mr_channels r) \<and> mr_channels r ! j = device ! j) \<and>
    merge_channels P (mr_channels r) rcs preset = \<lparr>mr_channels = mr_channels r, mr_to_install = []\<rparr>"
proof -
  let ?d = "modem_preset_name preset"
  let ?st = "\<lparr>ms_merged = device, ms_install = [], ms_max_index = max_index_of device\<rparr>"
  let ?m = "ms_merged (fold (merge_one P ?d) rcs ?st)"
  have r: "mr_channels (merge_channels P device rcs preset) = ?m"
    by (simp add: merge_channels_def Let_def)
  have settled: "settled ?d ?m rc" if "rc \<in> set rcs" for rc
    using assms that by (rule merge_fold_settles)
  have "\<exists>c \<in> set ?m. effective ?d rc c \<and> ck_key c = expand_psk (rc_psk rc)" if "rc \<in> set rcs" for rc
    using settled [OF that] position_SomeD by (fastforce simp: settled_def)
  moreover have "j < length ?m \<and> ?m ! j = device ! j"
    if "j < length device" "list_all (\<lambda>rc. \<not> effective ?d rc (device ! j)) rcs" for j
    using merge_fold_untouched [of j ?st rcs ?d P] that by (simp add: list_all_iff)
  moreover have "merge_channels P ?m rcs preset = \<lparr>mr_channels = ?m, mr_to_install = []\<rparr>"
    using merge_fold_settled [of rcs ?d "\<lparr>ms_merged = ?m, ms_install = [], ms_max_index = max_index_of ?m\<rparr>" P] settled
    by (simp add: merge_channels_def)
  ultimately show ?thesis by (simp add: Let_def r list_all_iff list_ex_iff)
qed

definition sample_device :: "channel_key list" where
  "sample_device = [channel_key_from_proto 0 ''LongFast'' [1], channel_key_from_proto 1 ''Ops'' [7]]"

definition sample_raven_channels :: "parsed_raven_channel list" where
  "sample_raven_channels = [\<lparr>rc_name = ''Ops'', rc_psk = [9]\<rparr>, \<lparr>rc_name = ''AREDN'', rc_psk = [2]\<rparr>]"

theorem merge_installs_agree_witness:
  "table (mr_channels (merge_channels sample_proto sample_device sample_raven_channels 0)) =
     fold install (mr_to_install (merge_channels sample_proto sample_device sample_raven_channels 0)) (table sample_device)"
proof -
  have "distinct (map ck_index sample_device)" by (simp add: sample_device_def)
  moreover have "unat (max_index_of sample_device) + length sample_raven_channels < 2 ^ 32"
    by (simp add: sample_device_def sample_raven_channels_def max_index_of_def)
  ultimately show ?thesis using merge_installs_agree by blast
qed

theorem merge_complete_and_stable_witness:
  "let r = merge_channels sample_proto sample_device sample_raven_channels 0 in
     merge_channels sample_proto (mr_channels r) sample_raven_channels 0 = \<lparr>mr_channels = mr_channels r, mr_to_install = []\<rparr>"
proof -
  have "distinct (map rc_name sample_raven_channels)" and "[] \<notin> rc_name ` set sample_raven_channels"
    by (simp_all add: sample_raven_channels_def)
  from merge_complete_and_stable [OF this, of sample_proto sample_device 0] show ?thesis by (simp add: Let_def)
qed

end
