(* ===== verification/Autodetect.thy ===== *)
theory Autodetect
  imports Radio "HOL-Library.List_Lexorder" "HOL-Library.Char_ord" "HOL-Library.Option_ord"
    "HOL-Library.Product_Lexorder"
begin

text \<open>
  Model of \<open>src/autodetect.rs\<close>: the list of serial devices in probe order, the devices other processes
  have open, and the scan for the first port that answers the handshake.  The file system is a
  parameter.  A path is its byte string.  A port is what a probe of it will see.
\<close>

type_synonym path = string

record candidate =
  cd_device :: path
  cd_alias :: "path option"

text \<open>
  \<open>read_dir\<close> gives \<open>None\<close> where the directory cannot be read and an entry \<open>None\<close> where one entry cannot;
  \<open>utf8\<close> says whether a name is valid UTF-8.  On systems other than Linux (\<open>linux\<close> is the target of the build) the
  \<open>serialport\<close> crate lists the ports, by their names.
\<close>

record fs_env =
  read_dir :: "path \<Rightarrow> string option list option"
  utf8 :: "string \<Rightarrow> bool"
  canonicalize :: "path \<Rightarrow> path option"
  read_link :: "path \<Rightarrow> path option"
  linux :: bool
  available_ports :: "path list io_result"

definition join :: "path \<Rightarrow> string \<Rightarrow> path" where
  "join dir name = dir @ ''/'' @ name"

section \<open>Natural order\<close>

definition is_digit :: "char \<Rightarrow> bool" where
  "is_digit c \<longleftrightarrow> CHR ''0'' \<le> c \<and> c \<le> CHR ''9''"

definition digits_value :: "string \<Rightarrow> nat" where
  "digits_value ds = foldl (\<lambda>n c. 10 * n + (of_char c - 48)) 0 ds"

text \<open>\<open>str::parse\<close> for an unsigned integer below \<open>bound\<close>; a leading plus sign is accepted.\<close>

definition parse_unsigned :: "nat \<Rightarrow> string \<Rightarrow> nat option" where
  "parse_unsigned bound s =
     (let ds = (case s of [] \<Rightarrow> [] | c # cs \<Rightarrow> if c = CHR ''+'' then cs else s) in
      if ds \<noteq> [] \<and> list_all is_digit ds \<and> digits_value ds < bound then Some (digits_value ds) else None)"

definition natural_key :: "string \<Rightarrow> string \<times> nat option \<times> string" where
  "natural_key name =
     (let digits = length (takeWhile is_digit (rev name));
          stem = take (length name - digits) name;
          number = drop (length name - digits) name
      in (stem, parse_unsigned (2 ^ 64) number, name))"

definition sorted_entries :: "fs_env \<Rightarrow> path \<Rightarrow> (string \<Rightarrow> bool) \<Rightarrow> path list" where
  "sorted_entries fs dir keep = (case read_dir fs dir of
     None \<Rightarrow> []
   | Some entries \<Rightarrow>
       (let names = filter keep (filter (utf8 fs) (List.map_filter id entries))
        in map (join dir) (sort_key natural_key names)))"

section \<open>Candidates\<close>

definition numbered :: "string \<Rightarrow> string \<Rightarrow> bool" where
  "numbered pre name \<longleftrightarrow> take (length pre) name = pre \<and>
     (let n = drop (length pre) name in n \<noteq> [] \<and> list_all is_digit n)"

text \<open>The two loop bodies; the state is \<open>(out, seen)\<close>.\<close>

definition add_alias :: "fs_env \<Rightarrow> path \<Rightarrow> candidate list \<times> path set \<Rightarrow> candidate list \<times> path set" where
  "add_alias fs entry s = (case s of (out, seen) \<Rightarrow>
     (case canonicalize fs entry of
        None \<Rightarrow> (out, seen)
      | Some device \<Rightarrow>
          if device \<in> seen then (out, seen)
          else (out @ [\<lparr>cd_device = device, cd_alias = Some entry\<rparr>], insert device seen)))"

definition add_numbered :: "fs_env \<Rightarrow> path \<Rightarrow> candidate list \<times> path set \<Rightarrow> candidate list \<times> path set" where
  "add_numbered fs entry s = (case s of (out, seen) \<Rightarrow>
     (let device = (case canonicalize fs entry of Some d \<Rightarrow> d | None \<Rightarrow> entry) in
      if device \<in> seen then (out, seen)
      else (out @ [\<lparr>cd_device = device, cd_alias = None\<rparr>], insert device seen)))"

definition candidates :: "fs_env \<Rightarrow> path \<Rightarrow> candidate list" where
  "candidates fs dev =
     (let s = fold (add_alias fs) (sorted_entries fs (join dev ''serial/by-id'') (\<lambda>_. True)) ([], {})
      in fst (fold (\<lambda>pre. fold (add_numbered fs) (sorted_entries fs dev (numbered pre))) [''ttyACM'', ''ttyUSB''] s))"

definition system_candidates :: "fs_env \<Rightarrow> candidate list" where
  "system_candidates fs =
     (if linux fs then candidates fs ''/dev''
      else (case available_ports fs of
          Inr ports \<Rightarrow> map (\<lambda>p. \<lparr>cd_device = p, cd_alias = None\<rparr>) ports
        | Inl e \<Rightarrow> []))"

section \<open>Busy devices\<close>

definition busy_of_fd :: "fs_env \<Rightarrow> candidate list \<Rightarrow> nat \<Rightarrow> path \<Rightarrow> (path \<Rightarrow> nat option) \<Rightarrow> (path \<Rightarrow> nat option)" where
  "busy_of_fd fs cands pid fd busy = (case read_link fs fd of
     Some target \<Rightarrow>
       if target \<in> set (map cd_device cands) \<and> busy target = None then busy(target \<mapsto> pid) else busy
   | None \<Rightarrow> busy)"

definition busy_of_proc ::
  "fs_env \<Rightarrow> path \<Rightarrow> nat \<Rightarrow> candidate list \<Rightarrow> string \<Rightarrow> (path \<Rightarrow> nat option) \<Rightarrow> (path \<Rightarrow> nat option)" where
  "busy_of_proc fs proc_root own_pid cands name busy =
     (case (if utf8 fs name then parse_unsigned (2 ^ 32) name else None) of
        None \<Rightarrow> busy
      | Some pid \<Rightarrow>
          if pid = own_pid then busy
          else
            (let fd_dir = join (join proc_root name) ''fd'' in
             case read_dir fs fd_dir of
               None \<Rightarrow> busy
             | Some fds \<Rightarrow>
                 fold (busy_of_fd fs cands pid) (map (join fd_dir) (List.map_filter id fds)) busy))"

definition busy_devices :: "fs_env \<Rightarrow> path \<Rightarrow> nat \<Rightarrow> candidate list \<Rightarrow> (path \<Rightarrow> nat option)" where
  "busy_devices fs proc_root own_pid cands = (case read_dir fs proc_root of
     None \<Rightarrow> Map.empty
   | Some procs \<Rightarrow> fold (busy_of_proc fs proc_root own_pid cands) (List.map_filter id procs) Map.empty)"

section \<open>The scan\<close>

text \<open>
  What a probe of an open port will meet: the random config id, the result of its first write, the
  clock and the inputs of the handshake loop.
\<close>

record port =
  po_config_id :: u32
  po_first_write :: "io_error option"
  po_start :: nat
  po_inputs :: "hs_input list"

record 'x found =
  fo_port :: port
  fo_info :: "'x radio_info"

definition probe :: "'x proto \<Rightarrow> port \<Rightarrow> probe_timeouts \<Rightarrow> 'x radio_info io_result option" where
  "probe P p timeouts = snd (probe_port P (po_config_id p) timeouts (po_first_write p) (po_start p) (po_inputs p))"

text \<open>The devices opened, and the result; \<open>None\<close> if a probe has not returned.\<close>

fun scan ::
  "'x proto \<Rightarrow> (path \<Rightarrow> nat option) \<Rightarrow> (path \<Rightarrow> port io_result) \<Rightarrow> probe_timeouts \<Rightarrow> candidate list
     \<Rightarrow> path list \<times> 'x found option option" where
  "scan P busy open_port timeouts [] = ([], Some None)"
| "scan P busy open_port timeouts (c # cs) =
     (if busy (cd_device c) \<noteq> None then scan P busy open_port timeouts cs
      else (case open_port (cd_device c) of
          Inl e \<Rightarrow> (case scan P busy open_port timeouts cs of (opened, r) \<Rightarrow> (cd_device c # opened, r))
        | Inr p \<Rightarrow>
            (case probe P p timeouts of
               None \<Rightarrow> ([cd_device c], None)
             | Some (Inr info) \<Rightarrow> ([cd_device c], Some (Some \<lparr>fo_port = p, fo_info = info\<rparr>))
             | Some (Inl e) \<Rightarrow>
                 (case scan P busy open_port timeouts cs of (opened, r) \<Rightarrow> (cd_device c # opened, r)))))"

definition detect ::
  "'x proto \<Rightarrow> fs_env \<Rightarrow> nat \<Rightarrow> (path \<Rightarrow> port io_result) \<Rightarrow> path list \<times> 'x found option option" where
  "detect P fs own_pid open_port =
     (let cands = system_candidates fs; busy = busy_devices fs ''/proc'' own_pid cands
      in scan P busy open_port PROBE_TIMEOUTS cands)"

section \<open>Lemmas on the natural order\<close>

lemma natural_key_split:
  assumes "list_all is_digit ds" and "stem = [] \<or> \<not> is_digit (last stem)"
  shows "natural_key (stem @ ds) = (stem, parse_unsigned (2 ^ 64) ds, stem @ ds)"
proof -
  have "takeWhile is_digit (rev (stem @ ds)) = rev ds"
    using assms by (cases stem rule: rev_cases) (auto simp: takeWhile_append list_all_iff)
  then show ?thesis by (simp add: natural_key_def)
qed

lemma parse_digits:
  assumes "list_all is_digit ds" and "ds \<noteq> []" and "digits_value ds < bound"
  shows "parse_unsigned bound ds = Some (digits_value ds)"
proof (cases ds)
  case (Cons c cs)
  then have "c \<noteq> CHR ''+''" using assms(1) by (auto simp: is_digit_def less_eq_char_def)
  with Cons assms show ?thesis by (simp add: parse_unsigned_def)
qed (use assms in simp)

lemma sorted_entries_sorted:
  "\<exists>names. sorted_entries fs dir keep = map (join dir) names \<and> sorted (map natural_key names)"
  by (auto simp: sorted_entries_def Let_def split: option.split)

section \<open>Lemmas on the candidates\<close>

definition cands_ok :: "candidate list \<times> path set \<Rightarrow> bool" where
  "cands_ok s \<longleftrightarrow> snd s = cd_device ` set (fst s) \<and> distinct (map cd_device (fst s))"

lemma fold_add_alias:
  assumes "cands_ok s" and "\<forall>c \<in> set (fst s). cd_alias c \<noteq> None"
  shows "cands_ok (fold (add_alias fs) es s) \<and>
    (\<forall>c \<in> set (fst (fold (add_alias fs) es s)). cd_alias c \<noteq> None) \<and>
    snd (fold (add_alias fs) es s) = snd s \<union> {d. \<exists>e \<in> set es. canonicalize fs e = Some d}"
  using assms
proof (induction es arbitrary: s)
  case (Cons e es)
  have "cands_ok (add_alias fs e s)" "\<forall>c \<in> set (fst (add_alias fs e s)). cd_alias c \<noteq> None"
    "snd (add_alias fs e s) = snd s \<union> {d. canonicalize fs e = Some d}"
    using Cons.prems by (auto simp: add_alias_def cands_ok_def split: prod.splits option.split)
  with Cons.IH [of "add_alias fs e s"] show ?case by auto
qed simp

definition resolved :: "fs_env \<Rightarrow> path \<Rightarrow> path" where
  "resolved fs e = (case canonicalize fs e of Some d \<Rightarrow> d | None \<Rightarrow> e)"

lemma fold_add_numbered:
  assumes "cands_ok s"
  shows "cands_ok (fold (add_numbered fs) es s) \<and>
    (\<exists>new. fst (fold (add_numbered fs) es s) = fst s @ new \<and> (\<forall>c \<in> set new. cd_alias c = None)) \<and>
    snd (fold (add_numbered fs) es s) = snd s \<union> resolved fs ` set es"
  using assms
proof (induction es arbitrary: s)
  case (Cons e es)
  have ok: "cands_ok (add_numbered fs e s)"
    and seen: "snd (add_numbered fs e s) = insert (resolved fs e) (snd s)"
    using Cons.prems
    by (auto simp: add_numbered_def resolved_def cands_ok_def Let_def split: prod.splits option.split)
  obtain new where new: "fst (add_numbered fs e s) = fst s @ new" "\<forall>c \<in> set new. cd_alias c = None"
  proof (cases "resolved fs e \<in> snd s")
    case True
    then have "fst (add_numbered fs e s) = fst s @ []"
      by (cases s) (simp add: add_numbered_def resolved_def Let_def)
    then show thesis using that by fastforce
  next
    case False
    then have "fst (add_numbered fs e s) = fst s @ [\<lparr>cd_device = resolved fs e, cd_alias = None\<rparr>]"
      by (cases s) (simp add: add_numbered_def resolved_def Let_def)
    then show thesis using that by fastforce
  qed
  with Cons.IH [OF ok] seen show ?case by auto
qed simp

section \<open>Lemmas on busy devices\<close>

definition opens :: "fs_env \<Rightarrow> path \<Rightarrow> string \<Rightarrow> path \<Rightarrow> bool" where
  "opens fs proc_root name d \<longleftrightarrow> (\<exists>fds. read_dir fs (join (join proc_root name) ''fd'') = Some fds \<and>
     (\<exists>fd. Some fd \<in> set fds \<and> read_link fs (join (join (join proc_root name) ''fd'') fd) = Some d))"

lemma fold_busy_of_fd:
  "fold (busy_of_fd fs cands pid) fds busy d =
     (case busy d of Some p \<Rightarrow> Some p
      | None \<Rightarrow> if d \<in> cd_device ` set cands \<and> (\<exists>fd \<in> set fds. read_link fs fd = Some d) then Some pid else None)"
proof (induction fds arbitrary: busy)
  case (Cons fd fds)
  then show ?case by (auto simp: busy_of_fd_def split: option.split)
qed (simp split: option.split)

lemma set_map_filter_id: "set (List.map_filter id xs) = {x. Some x \<in> set xs}"
  by (auto simp: List.map_filter_def) force

lemma busy_of_proc_apply:
  "busy_of_proc fs root own cands name busy d =
     (case busy d of Some p \<Rightarrow> Some p
      | None \<Rightarrow>
          (case (if utf8 fs name then parse_unsigned (2 ^ 32) name else None) of
             Some pid \<Rightarrow> if pid \<noteq> own \<and> d \<in> cd_device ` set cands \<and> opens fs root name d then Some pid else None
           | None \<Rightarrow> None))"
  by (auto simp: busy_of_proc_def opens_def fold_busy_of_fd set_map_filter_id Let_def split: option.split)

text \<open>The process that has the device open, by the entries of \<open>/proc\<close> in their order.\<close>

definition holder :: "fs_env \<Rightarrow> path \<Rightarrow> nat \<Rightarrow> path \<Rightarrow> string \<Rightarrow> nat option" where
  "holder fs root own d name =
     (case (if utf8 fs name then parse_unsigned (2 ^ 32) name else None) of
        Some pid \<Rightarrow> if pid \<noteq> own \<and> opens fs root name d then Some pid else None
      | None \<Rightarrow> None)"

lemma fold_busy_of_proc:
  "fold (busy_of_proc fs root own cands) names busy d =
     (case busy d of Some p \<Rightarrow> Some p
      | None \<Rightarrow> if d \<in> cd_device ` set cands
          then (case List.map_filter (holder fs root own d) names of [] \<Rightarrow> None | p # _ \<Rightarrow> Some p) else None)"
proof (induction names arbitrary: busy)
  case Nil
  show ?case by (simp add: List.map_filter_def split: option.split)
next
  case (Cons name names)
  then show ?case
    by (auto simp: busy_of_proc_apply holder_def List.map_filter_simps split: option.split)
qed

lemma busy_devices_closed:
  assumes "\<And>name. \<not> opens fs root name d"
  shows "busy_devices fs root own cands d = None"
proof -
  have none: "holder fs root own d name = None" for name
    using assms by (simp add: holder_def split: option.split)
  have "List.map_filter (holder fs root own d) names = []" for names
    by (induction names) (simp_all add: List.map_filter_simps none)
  then show ?thesis
    by (simp add: busy_devices_def fold_busy_of_proc split: option.split)
qed

section \<open>Properties\<close>

text \<open>C36: the candidates are the devices behind \<open>serial/by-id\<close> first, each with its link, then the numbered
  \<open>ttyACM\<close> and \<open>ttyUSB\<close> devices; no device is listed twice, and none is left out.\<close>

theorem candidates_complete:
  "\<exists>aliased plain. candidates fs dev = aliased @ plain \<and>
     list_all (\<lambda>c. cd_alias c \<noteq> None) aliased \<and> list_all (\<lambda>c. cd_alias c = None) plain \<and>
     distinct (map cd_device (candidates fs dev)) \<and>
     cd_device ` set (candidates fs dev) =
       {d. \<exists>e \<in> set (sorted_entries fs (join dev ''serial/by-id'') (\<lambda>_. True)). canonicalize fs e = Some d} \<union>
       resolved fs ` set (sorted_entries fs dev (numbered ''ttyACM'')) \<union>
       resolved fs ` set (sorted_entries fs dev (numbered ''ttyUSB''))"
proof -
  let ?s0 = "fold (add_alias fs) (sorted_entries fs (join dev ''serial/by-id'') (\<lambda>_. True)) ([], {})"
  let ?s1 = "fold (add_numbered fs) (sorted_entries fs dev (numbered ''ttyACM'')) ?s0"
  let ?s2 = "fold (add_numbered fs) (sorted_entries fs dev (numbered ''ttyUSB'')) ?s1"
  have "cands_ok ([], {})" by (simp add: cands_ok_def)
  note s0 = fold_add_alias [OF this, of fs "sorted_entries fs (join dev ''serial/by-id'') (\<lambda>_. True)", simplified fst_conv list.set(1), simplified]
  note s1 = fold_add_numbered [OF conjunct1 [OF s0], of fs "sorted_entries fs dev (numbered ''ttyACM'')"]
  note s2 = fold_add_numbered [OF conjunct1 [OF s1], of fs "sorted_entries fs dev (numbered ''ttyUSB'')"]
  obtain n1 where n1: "fst ?s1 = fst ?s0 @ n1" "\<forall>c \<in> set n1. cd_alias c = None" using s1 by blast
  obtain n2 where n2: "fst ?s2 = fst ?s1 @ n2" "\<forall>c \<in> set n2. cd_alias c = None" using s2 by blast
  have out: "candidates fs dev = fst ?s2" by (simp add: candidates_def Let_def)
  have devs: "cd_device ` set (fst ?s2) = snd ?s2" "distinct (map cd_device (fst ?s2))"
    using s2 by (simp_all add: cands_ok_def)
  show ?thesis
  proof (intro exI conjI)
    show "candidates fs dev = fst ?s0 @ (n1 @ n2)" by (simp add: out n1(1) n2(1))
    show "list_all (\<lambda>c. cd_alias c \<noteq> None) (fst ?s0)" using s0 unfolding list_all_iff by blast
    show "list_all (\<lambda>c. cd_alias c = None) (n1 @ n2)" using n1(2) n2(2) unfolding list_all_iff by auto
    show "distinct (map cd_device (candidates fs dev))" by (simp only: out devs(2))
    show "cd_device ` set (candidates fs dev) =
       {d. \<exists>e \<in> set (sorted_entries fs (join dev ''serial/by-id'') (\<lambda>_. True)). canonicalize fs e = Some d} \<union>
       resolved fs ` set (sorted_entries fs dev (numbered ''ttyACM'')) \<union>
       resolved fs ` set (sorted_entries fs dev (numbered ''ttyUSB''))"
      unfolding out devs(1) using s0 s1 s2 by simp
  qed
qed

text \<open>The entries of a directory come in natural order, and of two names that differ in a trailing
  number below \<open>2 ^ 64\<close> the one with the smaller number comes first, however many digits they have.\<close>

theorem entries_naturally_sorted:
  assumes "stem = [] \<or> \<not> is_digit (last stem)"
    and "list_all is_digit m" and "list_all is_digit n" and "m \<noteq> []" and "n \<noteq> []"
    and "digits_value m < digits_value n" and "digits_value n < 2 ^ 64"
  shows "natural_key (stem @ m) < natural_key (stem @ n) \<and>
    (\<exists>names. sorted_entries fs dir keep = map (join dir) names \<and> sorted (map natural_key names))"
proof -
  have "natural_key (stem @ m) = (stem, Some (digits_value m), stem @ m)"
    and "natural_key (stem @ n) = (stem, Some (digits_value n), stem @ n)"
    using assms by (simp_all add: natural_key_split parse_digits)
  with assms(6) sorted_entries_sorted show ?thesis by simp
qed

theorem entries_naturally_sorted_witness:
  "natural_key ''ttyACM2'' < natural_key ''ttyACM10''"
  using entries_naturally_sorted [of "''ttyACM''" "''2''" "''10''"]
  by (simp add: is_digit_def digits_value_def less_eq_char_def)

text \<open>A device is busy exactly when it is a candidate and some process other than ours has it open, and
  it is attributed to the first such process of the directory.\<close>

theorem busy_devices_exact:
  assumes "read_dir fs root = Some procs"
  shows "busy_devices fs root own cands d =
    (if d \<in> cd_device ` set cands
     then (case List.map_filter (holder fs root own d) (List.map_filter id procs) of [] \<Rightarrow> None | p # _ \<Rightarrow> Some p)
     else None)"
  using assms by (simp add: busy_devices_def fold_busy_of_proc)

text \<open>What comes of opening and probing a candidate.\<close>

definition answer :: "'x proto \<Rightarrow> (path \<Rightarrow> port io_result) \<Rightarrow> probe_timeouts \<Rightarrow> candidate \<Rightarrow> 'x found option" where
  "answer P open_port timeouts c = (case open_port (cd_device c) of
     Inl _ \<Rightarrow> None
   | Inr p \<Rightarrow> (case probe P p timeouts of
       Some (Inr info) \<Rightarrow> Some \<lparr>fo_port = p, fo_info = info\<rparr> | _ \<Rightarrow> None))"

lemma scan_cases:
  assumes "scan P busy open_port timeouts (c # cs) = (opened, Some r)"
  obtains (busy) "busy (cd_device c) \<noteq> None" and "scan P busy open_port timeouts cs = (opened, Some r)"
    | (found) f where "busy (cd_device c) = None" and "answer P open_port timeouts c = Some f"
      and "opened = [cd_device c]" and "r = Some f"
    | (none) opened' where "busy (cd_device c) = None" and "answer P open_port timeouts c = None"
      and "scan P busy open_port timeouts cs = (opened', Some r)" and "opened = cd_device c # opened'"
  using assms by (auto simp: answer_def split: if_splits prod.splits sum.splits option.splits)

text \<open>C27: the scan never opens a busy device and opens the others in order up to the first that answers; it
  returns that one, or nothing after it has tried all.\<close>

theorem scan_first_answering:
  assumes "scan P busy open_port timeouts cands = (opened, Some r)"
  shows "let free = filter (\<lambda>c. busy (cd_device c) = None) cands
    in (case position (\<lambda>c. answer P open_port timeouts c \<noteq> None) free of
          None \<Rightarrow> r = None \<and> opened = map cd_device free
        | Some i \<Rightarrow> r = answer P open_port timeouts (free ! i) \<and> opened = map cd_device (take (Suc i) free))"
  using assms
proof (induction cands arbitrary: opened)
  case Nil
  then show ?case by simp
next
  case (Cons c cs)
  from Cons.prems show ?case
  proof (cases rule: scan_cases)
    case busy
    then show ?thesis using Cons.IH [OF busy(2)] by (auto simp: Let_def)
  next
    case (found f)
    then show ?thesis by (simp add: Let_def)
  next
    case (none opened')
    then show ?thesis using Cons.IH [OF none(3)] by (simp add: Let_def split: option.splits)
  qed
qed

section \<open>Examples\<close>

definition sample_fs :: fs_env where
  "sample_fs =
     \<lparr>read_dir = (\<lambda>p. if p = ''/proc'' then Some [Some ''self'', Some ''1'', Some ''77'', Some ''80'']
        else if p = ''/proc/77/fd'' then Some [Some ''3''] else if p = ''/proc/80/fd'' then Some [Some ''5'', None]
        else if p = ''/dev'' then Some [Some ''ttyUSB0''] else None),
      utf8 = (\<lambda>_. True),
      canonicalize = Some,
      read_link = (\<lambda>p. if p = ''/proc/77/fd/3'' then Some ''/dev/ttyACM0''
        else if p = ''/proc/80/fd/5'' then Some ''/dev/ttyACM0'' else None),
      linux = True, available_ports = Inr []\<rparr>"

lemma sample_fs_candidates: "system_candidates sample_fs = [\<lparr>cd_device = ''/dev/ttyUSB0'', cd_alias = None\<rparr>]"
proof -
  have "sorted_entries sample_fs (join ''/dev'' ''serial/by-id'') (\<lambda>_. True) = []"
    and "sorted_entries sample_fs ''/dev'' (numbered ''ttyACM'') = []"
    and "sorted_entries sample_fs ''/dev'' (numbered ''ttyUSB'') = [''/dev/ttyUSB0'']"
    by (simp_all add: sorted_entries_def sample_fs_def join_def Let_def numbered_def is_digit_def less_eq_char_def
        List.map_filter_simps)
  then show ?thesis
    by (simp add: system_candidates_def candidates_def add_numbered_def sample_fs_def Let_def)
qed

lemma sample_fs_free:
  "busy_devices sample_fs ''/proc'' 1 [\<lparr>cd_device = ''/dev/ttyUSB0'', cd_alias = None\<rparr>] ''/dev/ttyUSB0'' = None"
  by (rule busy_devices_closed) (simp add: opens_def sample_fs_def)

definition sample_candidates :: "candidate list" where
  "sample_candidates = map (\<lambda>d. \<lparr>cd_device = d, cd_alias = None\<rparr>) [''/dev/ttyACM0'', ''/dev/ttyACM1'', ''/dev/ttyUSB0'']"

theorem busy_devices_exact_witness:
  "busy_devices sample_fs ''/proc'' 1 sample_candidates ''/dev/ttyACM0'' = Some 77"
proof -
  have "read_dir sample_fs ''/proc'' = Some [Some ''self'', Some ''1'', Some ''77'', Some ''80'']"
    by (simp add: sample_fs_def)
  from busy_devices_exact [OF this] show ?thesis
    by (simp add: sample_candidates_def List.map_filter_simps holder_def opens_def join_def
        parse_unsigned_def is_digit_def digits_value_def less_eq_char_def sample_fs_def)
qed

definition answering_port :: port where
  "answering_port = \<lparr>po_config_id = 5, po_first_write = None, po_start = 0,
     po_inputs = map (byte_input 10) [0x94, 0xC3, 0, 2, 1, 9, 0x94, 0xC3, 0, 2, 2, 5]\<rparr>"

definition sample_open :: "path \<Rightarrow> port io_result" where
  "sample_open d = (if d = ''/dev/ttyACM1'' then Inl (Io_error NotFound []) else Inr answering_port)"

lemma answering_port_answers:
  "\<exists>info. probe sample_proto answering_port PROBE_TIMEOUTS = Some (Inr info) \<and> ri_my_node_num info = 9"
  by (simp add: probe_def probe_port_def run_handshake_def answering_port_def hs_config_for_def hs_initial_def
      byte_input_def hs_iteration_def hs_on_read_def hs_on_payload_def wire_simps PROBE_TIMEOUTS_def HANDSHAKE_TIMEOUT_def want_config_request_def)

theorem scan_first_answering_witness:
  "\<exists>r. scan sample_proto [''/dev/ttyACM0'' \<mapsto> 77] sample_open PROBE_TIMEOUTS sample_candidates
      = ([''/dev/ttyACM1'', ''/dev/ttyUSB0''], Some r) \<and> r \<noteq> None"
proof -
  let ?busy = "[''/dev/ttyACM0'' \<mapsto> 77]" and ?scan = "scan sample_proto [''/dev/ttyACM0'' \<mapsto> 77] sample_open PROBE_TIMEOUTS"
  obtain info where info: "probe sample_proto answering_port PROBE_TIMEOUTS = Some (Inr info)"
    using answering_port_answers by blast
  obtain opened r where run: "?scan sample_candidates = (opened, Some r)"
    by (simp add: sample_candidates_def sample_open_def info)
  from scan_first_answering [OF run] run show ?thesis
    by (simp add: Let_def sample_candidates_def sample_open_def answer_def info)
qed

end
