(* ===== verification/Session.thy ===== *)
theory Session
  imports Autodetect Raven Udp Bridge_Spec
begin

text \<open>
  Model of \<open>src/main.rs\<close>: opening the port with its growing delay, one session with a radio (handshake,
  channel installation, MQTT proxy setup, bridge), and the loop over sessions.  What the environment
  does during one session is the record \<open>session_env\<close>; a result \<open>None\<close> means that a blocking call has
  not returned yet.  The command line is parsed by \<open>clap\<close>, logging and the 100 ms pauses are left out.
\<close>

section \<open>Command line and constants\<close>

datatype platform = OpenWrt | Other_platform

record cli =
  cl_port :: string
  cl_baud :: u32
  cl_udp_addr :: ipv4
  cl_udp_port :: u16
  cl_interface :: "ipv4 option"
  cl_platform :: platform
  cl_ingress :: ingress

definition RECONNECT_DELAY :: nat where "RECONNECT_DELAY = 2000"
definition MAX_REOPEN_DELAY :: nat where "MAX_REOPEN_DELAY = 30000"
definition MQTT_PROXY_ONLY_ADDRESS :: string where "MQTT_PROXY_ONLY_ADDRESS = ''127.0.0.1''"
definition MQTT_REBOOT_TIMEOUT :: nat where "MQTT_REBOOT_TIMEOUT = 30000"
definition AUTO_PORT :: string where "AUTO_PORT = ''auto''"

section \<open>Opening the port\<close>

text \<open>
  Each attempt is the outcome of \<open>open\<close>, or in auto mode the inputs of \<open>detect\<close>.  The result is the list of
  delays slept and the port, if an attempt succeeded.
\<close>

record auto_attempt =
  at_fs :: fs_env
  at_pid :: nat
  at_open :: "path \<Rightarrow> port io_result"

fun open_auto ::
  "'x proto \<Rightarrow> nat \<Rightarrow> auto_attempt list \<Rightarrow> nat list \<times> (port \<times> 'x radio_info option) option" where
  "open_auto P delay [] = ([], None)"
| "open_auto P delay (a # as) = (case snd (detect P (at_fs a) (at_pid a) (at_open a)) of
     None \<Rightarrow> ([], None)
   | Some (Some found) \<Rightarrow> ([], Some (fo_port found, Some (fo_info found)))
   | Some None \<Rightarrow>
       (case open_auto P (min (delay * 2) MAX_REOPEN_DELAY) as of (sleeps, r) \<Rightarrow> (delay # sleeps, r)))"

fun open_fixed ::
  "nat \<Rightarrow> port io_result list \<Rightarrow> nat list \<times> (port \<times> 'x radio_info option) option" where
  "open_fixed delay [] = ([], None)"
| "open_fixed delay (Inr p # as) = ([], Some (p, None))"
| "open_fixed delay (Inl e # as) =
     (case open_fixed (min (delay * 2) MAX_REOPEN_DELAY) as of (sleeps, r) \<Rightarrow> (delay # sleeps, r))"

definition open_serial ::
  "'x proto \<Rightarrow> cli \<Rightarrow> auto_attempt list \<Rightarrow> port io_result list \<Rightarrow> nat list \<times> (port \<times> 'x radio_info option) option" where
  "open_serial P cli autos fixed =
     (if cl_port cli = [] \<or> cl_port cli = AUTO_PORT then open_auto P RECONNECT_DELAY autos
      else open_fixed RECONNECT_DELAY fixed)"

section \<open>One session\<close>

text \<open>What a session does to the outside; an action with bytes is an attempt to write them to the port.\<close>

datatype 'x action =
    Handshake_write bytes
  | Install_channel "'x channel" bytes
  | Configure_mqtt "'x mqtt_config" bytes
  | Bridge_effect effect

record session_env =
  sn_port :: port
  sn_raven :: raven_env
  sn_install_write :: "nat \<Rightarrow> io_error option"
  sn_mqtt_write :: "io_error option"
  sn_reboot_start :: nat
  sn_reboot_inputs :: "(nat \<times> read_outcome) list"
  sn_clone_error :: "io_error option"
  sn_bridge_setup :: "io_error option"
  sn_events :: "bridge_event list"

definition session_handshake ::
  "'x proto \<Rightarrow> port \<Rightarrow> 'x radio_info option \<Rightarrow> 'x action list \<times> 'x radio_info io_result option" where
  "session_handshake P p info = (case info of
     Some info \<Rightarrow> ([], Some (Inr info))
   | None \<Rightarrow>
       (case handshake P (po_config_id p) (po_first_write p) (po_start p) (po_inputs p) of
          (ws, r) \<Rightarrow> (map Handshake_write ws, r)))"

definition session_channels ::
  "'x proto \<Rightarrow> cli \<Rightarrow> raven_env \<Rightarrow> 'x radio_info \<Rightarrow> channel_key list \<times> 'x channel list" where
  "session_channels P cli E info =
     (let channels = channel_keys info in
      if cl_platform cli = OpenWrt then
        (case load_raven_channels E of
           Inr (Some raven_channels) \<Rightarrow>
             (let r = merge_channels P channels raven_channels (ri_modem_preset info)
              in (mr_channels r, mr_to_install r))
         | Inr None \<Rightarrow> (channels, [])
         | Inl e \<Rightarrow> (channels, []))
      else (channels, []))"

definition downlink_of :: "'x channel \<Rightarrow> bool" where
  "downlink_of ch = (case ch_settings ch of Some s \<Rightarrow> cs_downlink_enabled s | None \<Rightarrow> False)"

definition add_for_downlink :: "'x channel \<Rightarrow> 'x channel list \<Rightarrow> 'x channel list" where
  "add_for_downlink ch to_install =
     (if \<not> downlink_of ch \<and> \<not> list_ex (\<lambda>c. ch_index c = ch_index ch) to_install
      then to_install @ [ch] else to_install)"

definition with_downlink :: "'x channel \<Rightarrow> 'x channel" where
  "with_downlink ch = ch\<lparr>ch_settings := map_option (\<lambda>s. s\<lparr>cs_downlink_enabled := True\<rparr>) (ch_settings ch)\<rparr>"

definition plan_installs :: "ingress \<Rightarrow> 'x radio_info \<Rightarrow> 'x channel list \<Rightarrow> 'x channel list" where
  "plan_installs ingress info to_install =
     (if ingress = MqttProxy
      then map with_downlink (fold add_for_downlink (ri_channels info) to_install)
      else to_install)"

fun install_channels ::
  "'x proto \<Rightarrow> u32 \<Rightarrow> (nat \<Rightarrow> io_error option) \<Rightarrow> nat \<Rightarrow> 'x channel list \<Rightarrow> 'x action list \<times> io_error option" where
  "install_channels P node write_result k [] = ([], None)"
| "install_channels P node write_result k (ch # chs) =
     (case write_result k of
        Some e \<Rightarrow> ([Install_channel ch (send_set_channel P node ch)], Some e)
      | None \<Rightarrow>
          (case install_channels P node write_result (Suc k) chs of
             (acts, r) \<Rightarrow> (Install_channel ch (send_set_channel P node ch) # acts, r)))"

text \<open>The ingress and the flag \<open>mqtt_setup_attempted\<close>, which the sessions share.\<close>

record shared =
  sh_ingress :: ingress
  sh_attempted :: bool

definition proxy_config :: "'x proto \<Rightarrow> 'x radio_info \<Rightarrow> 'x mqtt_config" where
  "proxy_config P info =
     (let mqtt = (case ri_mqtt info of Some m \<Rightarrow> m | None \<Rightarrow> mqtt_config_default P);
          mqtt' = mqtt\<lparr>mq_enabled := True, mq_proxy_to_client_enabled := True\<rparr>
      in if \<not> (case ri_mqtt info of Some m \<Rightarrow> mq_enabled m | None \<Rightarrow> False) \<and> mq_address mqtt' = []
         then mqtt'\<lparr>mq_address := MQTT_PROXY_ONLY_ADDRESS\<rparr> else mqtt')"

datatype decision = Run_bridge | End_session "session_end io_result" | Still_waiting

definition mqtt_setup ::
  "'x proto \<Rightarrow> session_env \<Rightarrow> 'x radio_info \<Rightarrow> shared \<Rightarrow> 'x action list \<times> shared \<times> decision" where
  "mqtt_setup P E info sh =
     (if sh_ingress sh = MqttProxy then
        (let mqtt = (case ri_mqtt info of Some m \<Rightarrow> m | None \<Rightarrow> mqtt_config_default P) in
         if \<not> (mq_enabled mqtt \<and> mq_proxy_to_client_enabled mqtt) then
           (if sh_attempted sh then ([], sh\<lparr>sh_ingress := Phone\<rparr>, Run_bridge)
            else
              (let sh' = sh\<lparr>sh_attempted := True\<rparr>;
                   mqtt' = proxy_config P info;
                   act = Configure_mqtt mqtt' (send_set_mqtt_config P (ri_my_node_num info) mqtt')
               in (case sn_mqtt_write E of
                     Some e \<Rightarrow> ([act], sh', End_session (Inl e))
                   | None \<Rightarrow>
                       (case wait_for_reboot P (sn_reboot_start E) MQTT_REBOOT_TIMEOUT (sn_reboot_inputs E) of
                          None \<Rightarrow> ([act], sh', Still_waiting)
                        | Some (Inr True) \<Rightarrow> ([act], sh', End_session (Inr RadioRebooted))
                        | Some (Inr False) \<Rightarrow> ([act], sh'\<lparr>sh_ingress := Phone\<rparr>, Run_bridge)
                        | Some (Inl e) \<Rightarrow> ([act], sh', End_session (Inr (SerialLost e)))))))
         else ([], sh, Run_bridge))
      else ([], sh, Run_bridge))"

definition session_bridge :: "cli \<Rightarrow> 'x radio_info \<Rightarrow> ingress \<Rightarrow> channel_key list \<Rightarrow> bridge" where
  "session_bridge cli info ingress channels =
     Bridge_new \<lparr>bc_multicast_addr = cl_udp_addr cli, bc_udp_port = cl_udp_port cli,
                 bc_ingress = ingress, bc_my_node_num = ri_my_node_num info\<rparr> channels"

text \<open>The part of \<open>run_session\<close> after the handshake.\<close>

definition run_connected ::
  "'x proto \<Rightarrow> aes_crate \<Rightarrow> cli \<Rightarrow> session_env \<Rightarrow> 'x radio_info \<Rightarrow> shared \<Rightarrow>
     'x action list \<times> shared \<times> session_end io_result option" where
  "run_connected P A cli E info sh =
     (let (channels, to_install) = session_channels P cli (sn_raven E) info;
          (installs, failed) = install_channels P (ri_my_node_num info) (sn_install_write E) 0
                                 (plan_installs (sh_ingress sh) info to_install)
      in case failed of
           Some e \<Rightarrow> (installs, sh, Some (Inl e))
         | None \<Rightarrow>
             (case mqtt_setup P E info sh of
                (acts, sh', End_session r) \<Rightarrow> (installs @ acts, sh', Some r)
              | (acts, sh', Still_waiting) \<Rightarrow> (installs @ acts, sh', None)
              | (acts, sh', Run_bridge) \<Rightarrow>
                  (case sn_clone_error E of
                     Some e \<Rightarrow> (installs @ acts, sh', Some (Inl e))
                   | None \<Rightarrow>
                       (case bridge_run P A (sn_bridge_setup E) (session_bridge cli info (sh_ingress sh') channels) (sn_events E) of
                          (effs, r) \<Rightarrow> (installs @ acts @ map Bridge_effect effs, sh', Some r)))))"

definition run_session ::
  "'x proto \<Rightarrow> aes_crate \<Rightarrow> cli \<Rightarrow> session_env \<Rightarrow> 'x radio_info option \<Rightarrow> shared \<Rightarrow>
     'x action list \<times> shared \<times> session_end io_result option" where
  "run_session P A cli E info sh = (case session_handshake P (sn_port E) info of
     (ws, None) \<Rightarrow> (ws, sh, None)
   | (ws, Some (Inl e)) \<Rightarrow> (ws, sh, Some (Inl e))
   | (ws, Some (Inr info)) \<Rightarrow>
       (case run_connected P A cli E info sh of (acts, sh', r) \<Rightarrow> (ws @ acts, sh', r)))"

section \<open>The loop over sessions\<close>

text \<open>
  One round: the inputs of \<open>open_serial\<close>, used when no port is held, and of the session.  The session's
  port is the one of its environment.
\<close>

record round =
  rd_autos :: "auto_attempt list"
  rd_fixed :: "port io_result list"
  rd_env :: session_env

datatype outcome = Running | Exited

record 'x main_result =
  mn_actions :: "'x action list"
  mn_sleeps :: "nat list"
  mn_shared :: shared
  mn_outcome :: outcome

fun main_loop :: "'x proto \<Rightarrow> aes_crate \<Rightarrow> cli \<Rightarrow> shared \<Rightarrow> bool \<Rightarrow> round list \<Rightarrow> 'x main_result" where
  "main_loop P A cli sh held [] = \<lparr>mn_actions = [], mn_sleeps = [], mn_shared = sh, mn_outcome = Running\<rparr>"
| "main_loop P A cli sh held (rd # rds) =
     (let (sleeps, opened) = (if held then ([], Some (sn_port (rd_env rd), None))
                              else open_serial P cli (rd_autos rd) (rd_fixed rd))
      in case opened of
           None \<Rightarrow> \<lparr>mn_actions = [], mn_sleeps = sleeps, mn_shared = sh, mn_outcome = Running\<rparr>
         | Some (p, info) \<Rightarrow>
             (case run_session P A cli ((rd_env rd)\<lparr>sn_port := p\<rparr>) info sh of
                (acts, sh', None) \<Rightarrow>
                  \<lparr>mn_actions = acts, mn_sleeps = sleeps, mn_shared = sh', mn_outcome = Running\<rparr>
              | (acts, sh', Some (Inr (UdpFailed e))) \<Rightarrow>
                  \<lparr>mn_actions = acts, mn_sleeps = sleeps, mn_shared = sh', mn_outcome = Exited\<rparr>
              | (acts, sh', Some (Inr RadioRebooted)) \<Rightarrow>
                  (let r = main_loop P A cli sh' True rds
                   in r\<lparr>mn_actions := acts @ mn_actions r, mn_sleeps := sleeps @ mn_sleeps r\<rparr>)
              | (acts, sh', Some _) \<Rightarrow>
                  (let r = main_loop P A cli sh' False rds
                   in r\<lparr>mn_actions := acts @ mn_actions r, mn_sleeps := sleeps @ [RECONNECT_DELAY] @ mn_sleeps r\<rparr>)))"

definition main :: "'x proto \<Rightarrow> aes_crate \<Rightarrow> cli \<Rightarrow> udp_os \<Rightarrow> round list \<Rightarrow> 'x main_result" where
  "main P A cli os rounds =
     (case setup_multicast_socket os (cl_udp_addr cli) (cl_udp_port cli) (cl_interface cli) of
        Inl e \<Rightarrow> \<lparr>mn_actions = [], mn_sleeps = [],
                 mn_shared = \<lparr>sh_ingress = cl_ingress cli, sh_attempted = False\<rparr>, mn_outcome = Exited\<rparr>
      | Inr s \<Rightarrow> main_loop P A cli \<lparr>sh_ingress = cl_ingress cli, sh_attempted = False\<rparr> False rounds)"

section \<open>Lemmas\<close>

lemma add_for_downlink_cases:
  "add_for_downlink ch ins = ins \<and> (downlink_of ch \<or> (\<exists>c \<in> set ins. ch_index c = ch_index ch)) \<or>
   add_for_downlink ch ins = ins @ [ch] \<and> \<not> downlink_of ch"
  by (auto simp: add_for_downlink_def list_ex_iff)

lemma fold_add_for_downlink:
  "(\<exists>new. fold add_for_downlink chs ins = ins @ new \<and> set new \<subseteq> {ch \<in> set chs. \<not> downlink_of ch}) \<and>
   (\<forall>ch \<in> set chs. downlink_of ch \<or> (\<exists>c \<in> set (fold add_for_downlink chs ins). ch_index c = ch_index ch))"
proof (induction chs arbitrary: ins)
  case (Cons ch chs)
  obtain new where new: "fold add_for_downlink chs (add_for_downlink ch ins) = add_for_downlink ch ins @ new"
    "set new \<subseteq> {ch \<in> set chs. \<not> downlink_of ch}"
    using Cons.IH by blast
  have rest: "\<forall>c \<in> set chs. downlink_of c \<or> (\<exists>d \<in> set (fold add_for_downlink chs (add_for_downlink ch ins)). ch_index d = ch_index c)"
    using Cons.IH by blast
  from add_for_downlink_cases [of ch ins] show ?case
  proof
    assume "add_for_downlink ch ins = ins \<and> (downlink_of ch \<or> (\<exists>c \<in> set ins. ch_index c = ch_index ch))"
    with new rest show ?thesis by auto
  next
    assume "add_for_downlink ch ins = ins @ [ch] \<and> \<not> downlink_of ch"
    with new rest show ?thesis by auto
  qed
qed simp

lemma downlink_with_downlink: "downlink_of (with_downlink ch) \<longleftrightarrow> ch_settings ch \<noteq> None"
  by (cases "ch_settings ch") (simp_all add: downlink_of_def with_downlink_def)

lemma with_downlink_ok: "ch_settings (with_downlink ch) = None \<or> downlink_of (with_downlink ch)"
  by (cases "ch_settings ch") (simp_all add: downlink_of_def with_downlink_def)

lemma with_downlink_simps [simp]:
  "ch_index (with_downlink ch) = ch_index ch" "ch_role (with_downlink ch) = ch_role ch"
  by (simp_all add: with_downlink_def)

definition is_configure :: "'x action \<Rightarrow> bool" where
  "is_configure a = (case a of Configure_mqtt _ _ \<Rightarrow> True | _ \<Rightarrow> False)"

definition is_install :: "'x action \<Rightarrow> bool" where
  "is_install a = (case a of Install_channel _ _ \<Rightarrow> True | _ \<Rightarrow> False)"

lemma action_kinds [simp]:
  "is_configure (Configure_mqtt m w)" "\<not> is_configure (Install_channel ch w)"
  "\<not> is_configure (Handshake_write w)" "\<not> is_configure (Bridge_effect e)"
  "is_install (Install_channel ch w)" "\<not> is_install (Configure_mqtt m w)"
  "\<not> is_install (Handshake_write w)" "\<not> is_install (Bridge_effect e)"
  by (simp_all add: is_configure_def is_install_def)

lemma install_channels_actions:
  "filter is_configure (fst (install_channels P node wr k chs)) = []"
proof (induction chs arbitrary: k)
  case (Cons ch chs)
  then show ?case
    by (simp add: split_beta split: option.split)
qed simp

lemma reboot_result_cases: "r = None \<or> (\<exists>e. r = Some (Inl e)) \<or> r = Some (Inr True) \<or> r = Some (Inr False)"
  for r :: "bool io_result option"
proof (cases r)
  case (Some x)
  then show ?thesis by (cases x) auto
qed simp

text \<open>What \<open>mqtt_setup\<close> does in each situation.\<close>

text \<open>The one attempt to turn the proxy on: the settings are written, and the bridge runs in this session only if
  the radio does not reboot in time, with the phone ingress.\<close>

lemma mqtt_setup_attempt:
  assumes "sh_ingress sh = MqttProxy" and "\<not> sh_attempted sh"
    and "\<not> (let m = (case ri_mqtt info of Some m \<Rightarrow> m | None \<Rightarrow> mqtt_config_default P) in mq_enabled m \<and> mq_proxy_to_client_enabled m)"
  obtains ing d where "mqtt_setup P E info sh = ([Configure_mqtt (proxy_config P info)
      (send_set_mqtt_config P (ri_my_node_num info) (proxy_config P info))], \<lparr>sh_ingress = ing, sh_attempted = True\<rparr>, d)"
    and "d = Run_bridge \<longrightarrow> ing = Phone"
proof -
  let ?acts = "[Configure_mqtt (proxy_config P info) (send_set_mqtt_config P (ri_my_node_num info) (proxy_config P info))]"
  let ?wait = "wait_for_reboot P (sn_reboot_start E) MQTT_REBOOT_TIMEOUT (sn_reboot_inputs E)"
  have sh: "sh\<lparr>sh_attempted := True\<rparr> = \<lparr>sh_ingress = MqttProxy, sh_attempted = True\<rparr>"
    "sh\<lparr>sh_attempted := True, sh_ingress := Phone\<rparr> = \<lparr>sh_ingress = Phone, sh_attempted = True\<rparr>"
    using assms(1) by (cases sh; simp)+
  have result: "mqtt_setup P E info sh = (case sn_mqtt_write E of
       Some e \<Rightarrow> (?acts, \<lparr>sh_ingress = MqttProxy, sh_attempted = True\<rparr>, End_session (Inl e))
     | None \<Rightarrow> (case ?wait of
         None \<Rightarrow> (?acts, \<lparr>sh_ingress = MqttProxy, sh_attempted = True\<rparr>, Still_waiting)
       | Some (Inr True) \<Rightarrow> (?acts, \<lparr>sh_ingress = MqttProxy, sh_attempted = True\<rparr>, End_session (Inr RadioRebooted))
       | Some (Inr False) \<Rightarrow> (?acts, \<lparr>sh_ingress = Phone, sh_attempted = True\<rparr>, Run_bridge)
       | Some (Inl e) \<Rightarrow> (?acts, \<lparr>sh_ingress = MqttProxy, sh_attempted = True\<rparr>, End_session (Inr (SerialLost e)))))"
    using assms by (simp add: mqtt_setup_def Let_def sh split: option.split sum.split bool.split)
  show thesis
  proof (cases "sn_mqtt_write E")
    case None
    then show thesis
      using reboot_result_cases [of ?wait] by (elim disjE exE) (rule that, simp add: result, simp)+
  qed (rule that, simp add: result, simp)
qed

lemma mqtt_setup_cases:
  obtains (phone) "sh_ingress sh = Phone" and "mqtt_setup P E info sh = ([], sh, Run_bridge)"
    | (enabled) m where "sh_ingress sh = MqttProxy" and "ri_mqtt info = Some m" and "mq_enabled m"
        and "mq_proxy_to_client_enabled m" and "mqtt_setup P E info sh = ([], sh, Run_bridge)"
    | (fallback) "sh_ingress sh = MqttProxy" and "sh_attempted sh"
        and "\<nexists>m. ri_mqtt info = Some m \<and> mq_enabled m \<and> mq_proxy_to_client_enabled m"
        and "mqtt_setup P E info sh = ([], sh\<lparr>sh_ingress := Phone\<rparr>, Run_bridge)"
    | (configure) ing d where "sh_ingress sh = MqttProxy" and "\<not> sh_attempted sh"
        and "mqtt_setup P E info sh = ([Configure_mqtt (proxy_config P info)
               (send_set_mqtt_config P (ri_my_node_num info) (proxy_config P info))], \<lparr>sh_ingress = ing, sh_attempted = True\<rparr>, d)"
        and "d = Run_bridge \<longrightarrow> ing = Phone"
proof (cases "sh_ingress sh")
  case Phone
  with phone show thesis by (simp add: mqtt_setup_def)
next
  case MqttProxy
  let ?m = "case ri_mqtt info of Some m \<Rightarrow> m | None \<Rightarrow> mqtt_config_default P"
  consider "mq_enabled ?m \<and> mq_proxy_to_client_enabled ?m"
    | "\<not> (mq_enabled ?m \<and> mq_proxy_to_client_enabled ?m)" "sh_attempted sh"
    | "\<not> (let m = ?m in mq_enabled m \<and> mq_proxy_to_client_enabled m)" "\<not> sh_attempted sh"
    by (auto simp: Let_def)
  then show thesis
  proof cases
    case 1
    then obtain m where "ri_mqtt info = Some m"
      by (auto simp: mqtt_config_default_def split: option.splits)
    with 1 MqttProxy enabled show thesis by (simp add: mqtt_setup_def Let_def)
  next
    case 2
    then have "\<nexists>m. ri_mqtt info = Some m \<and> mq_enabled m \<and> mq_proxy_to_client_enabled m" by auto
    with 2 MqttProxy show thesis by (intro fallback) (simp_all add: mqtt_setup_def Let_def)
  next
    case 3
    from mqtt_setup_attempt [OF MqttProxy 3(2) 3(1), of E] configure [OF MqttProxy 3(2)] show thesis by metis
  qed
qed

text \<open>How the MQTT settings written in a step relate to the shared state before and after.\<close>

definition shared_ok :: "shared \<Rightarrow> 'x action list \<Rightarrow> shared \<Rightarrow> bool" where
  "shared_ok sh acts sh' \<longleftrightarrow>
     length (filter is_configure acts) = (if sh_attempted sh' then 1 else 0) - (if sh_attempted sh then 1 else 0) \<and>
     (sh_attempted sh \<longrightarrow> sh_attempted sh') \<and> (sh_ingress sh = Phone \<longrightarrow> sh' = sh)"

lemma shared_ok_padded:
  "filter is_configure pre = [] \<Longrightarrow> filter is_configure post = [] \<Longrightarrow>
    shared_ok sh (pre @ acts @ post) sh' \<longleftrightarrow> shared_ok sh acts sh'"
  by (simp add: shared_ok_def)

lemma shared_ok_none: "filter is_configure acts = [] \<Longrightarrow> shared_ok sh acts sh"
  by (simp add: shared_ok_def)

lemma mqtt_setup_shared:
  assumes "mqtt_setup P E info sh = (acts, sh', d)"
  shows "shared_ok sh acts sh'"
  by (cases rule: mqtt_setup_cases [of sh P E info]) (use assms in \<open>auto simp: shared_ok_def\<close>)

lemma install_channels_kinds:
  "\<forall>a \<in> set (fst (install_channels P node wr k chs)). is_install a"
proof (induction chs arbitrary: k)
  case (Cons ch chs)
  then show ?case by (simp add: split_beta split: option.split)
qed simp

lemma no_configure_bridge [simp]: "filter is_configure (map Bridge_effect effs) = []"
  by (induction effs) simp_all

lemma run_connected_shared:
  assumes "run_connected P A cli E info sh = (acts, sh', r)"
  shows "shared_ok sh acts sh'"
proof -
  obtain channels to_install where ch: "session_channels P cli (sn_raven E) info = (channels, to_install)" by fastforce
  obtain installs failed where inst: "install_channels P (ri_my_node_num info) (sn_install_write E) 0
      (plan_installs (sh_ingress sh) info to_install) = (installs, failed)" by fastforce
  have none: "filter is_configure installs = []"
    using install_channels_actions [of P "ri_my_node_num info" "sn_install_write E" 0] inst by (metis fst_conv)
  obtain macts msh d where m: "mqtt_setup P E info sh = (macts, msh, d)" by (cases "mqtt_setup P E info sh") auto
  show ?thesis
    using mqtt_setup_shared [OF m] assms shared_ok_padded [OF none no_configure_bridge, of sh macts]
      shared_ok_padded [OF none, of "[]" sh macts] shared_ok_none [OF none, of sh]
    by (auto simp: run_connected_def ch inst m Let_def split: option.splits decision.splits prod.splits)
qed

lemma run_session_shared:
  assumes "run_session P A cli E info sh = (acts, sh', r)"
  shows "shared_ok sh acts sh'"
proof -
  obtain ws hr where h: "session_handshake P (sn_port E) info = (ws, hr)" by fastforce
  then have "filter is_configure ws = []"
    by (auto simp: session_handshake_def filter_empty_conv split: option.splits prod.splits)
  note ws = this
  show ?thesis
  proof (cases "\<exists>i. hr = Some (Inr i)")
    case True
    then obtain i where hr: "hr = Some (Inr i)" by blast
    obtain cacts csh cr where c: "run_connected P A cli E i sh = (cacts, csh, cr)"
      by (cases "run_connected P A cli E i sh") auto
    show ?thesis
      using assms run_connected_shared [OF c] shared_ok_padded [OF ws, of "[]" sh cacts]
      by (simp add: run_session_def h hr c)
  next
    case False
    then have "acts = ws \<and> sh' = sh"
      using assms by (auto simp: run_session_def h split: option.splits sum.splits)
    with shared_ok_none [OF ws] show ?thesis by simp
  qed
qed

lemma main_loop_configures:
  "length (filter is_configure (mn_actions (main_loop P A cli sh held rds))) \<le>
    (if sh_attempted sh \<or> sh_ingress sh = Phone then 0 else 1)"
proof (induction rds arbitrary: sh held)
  case (Cons rd rds)
  obtain sleeps opened where o: "(if held then ([], Some (sn_port (rd_env rd), None))
      else open_serial P cli (rd_autos rd) (rd_fixed rd)) = (sleeps, opened)" by fastforce
  show ?case
  proof (cases opened)
    case None
    then show ?thesis by (simp add: o)
  next
    case (Some pi)
    obtain p info where pi: "pi = (p, info)" by fastforce
    obtain acts sh' r where s: "run_session P A cli ((rd_env rd)\<lparr>sn_port := p\<rparr>) info sh = (acts, sh', r)"
      by (cases "run_session P A cli ((rd_env rd)\<lparr>sn_port := p\<rparr>) info sh") auto
    show ?thesis
      using run_session_shared [OF s] Cons.IH [of sh' True] Cons.IH [of sh' False] Cons.IH [of sh True] Cons.IH [of sh False]
      by (auto simp: o Some pi s shared_ok_def Let_def split: option.split sum.split session_end.split if_splits)
  qed
qed simp

section \<open>Properties\<close>

text \<open>C16: over any number of sessions, reconnects and reboots the MQTT settings of the radio are written at most
  once, and never with \<open>--ingress phone\<close>.\<close>

theorem mqtt_configured_at_most_once:
  "length (filter is_configure (mn_actions (main P A cli os rounds))) \<le> (if cl_ingress cli = Phone then 0 else 1)"
  using main_loop_configures [of P A cli "\<lparr>sh_ingress = cl_ingress cli, sh_attempted = False\<rparr>" False rounds]
  by (auto simp: main_def split: sum.split)

text \<open>C24: the bridge is started with the MQTT proxy ingress only when the radio has reported MQTT and its client
  proxy as enabled; a radio that did not keep the setting after one attempt is bridged with the phone
  ingress instead of being configured and rebooted again.\<close>

theorem proxy_ingress_needs_enabled_proxy:
  assumes "mqtt_setup P E info sh = (acts, sh', d)"
  shows "(d = Run_bridge \<and> sh_ingress sh' = MqttProxy \<longrightarrow>
      (\<exists>m. ri_mqtt info = Some m \<and> mq_enabled m \<and> mq_proxy_to_client_enabled m) \<and> acts = []) \<and>
    (sh_attempted sh \<longrightarrow> d = Run_bridge \<and> acts = [] \<and> sh_attempted sh' \<and>
      (sh_ingress sh' = MqttProxy \<longleftrightarrow> sh_ingress sh = MqttProxy \<and>
        (\<exists>m. ri_mqtt info = Some m \<and> mq_enabled m \<and> mq_proxy_to_client_enabled m)))"
proof (cases rule: mqtt_setup_cases [of sh P E info])
  case fallback
  with assms show ?thesis by auto
qed (use assms in auto)

text \<open>The MQTT settings that are written are the radio's own with MQTT and the client proxy turned on; only
  if MQTT was off and there was no broker address is the address set, to the local host.\<close>

theorem proxy_config_preserves_settings:
  "let mqtt = (case ri_mqtt info of Some m \<Rightarrow> m | None \<Rightarrow> mqtt_config_default P); c = proxy_config P info
   in mq_enabled c \<and> mq_proxy_to_client_enabled c \<and> mq_rest c = mq_rest mqtt \<and>
      mq_address c = (if mq_address mqtt = [] \<and> \<not> mq_enabled mqtt then ''127.0.0.1'' else mq_address mqtt)"
  by (auto simp: proxy_config_def Let_def MQTT_PROXY_ONLY_ADDRESS_def mqtt_config_default_def split: option.split)

text \<open>C25: with the MQTT proxy ingress, every channel to install has downlink enabled, what Raven wanted
  installed is among them, and every channel of the radio either has downlink already or is installed;
  nothing is written exactly if all have it and Raven adds nothing.\<close>

theorem downlink_enabled_everywhere:
  "let ins = plan_installs MqttProxy info to_install in
     list_all (\<lambda>ch. ch_settings ch = None \<or> downlink_of ch) ins \<and>
     list_all (\<lambda>ch. downlink_of ch \<or> list_ex (\<lambda>c. ch_index c = ch_index ch) ins) (ri_channels info) \<and>
     take (length to_install) ins = map with_downlink to_install \<and>
     (ins = [] \<longleftrightarrow> to_install = [] \<and> list_all downlink_of (ri_channels info))"
proof -
  let ?ins = "plan_installs MqttProxy info to_install"
  obtain new where new: "fold add_for_downlink (ri_channels info) to_install = to_install @ new"
    "set new \<subseteq> {ch \<in> set (ri_channels info). \<not> downlink_of ch}"
    using fold_add_for_downlink by blast
  have ins: "?ins = map with_downlink (to_install @ new)" by (simp add: plan_installs_def new(1))
  have "\<forall>ch \<in> set (ri_channels info). downlink_of ch \<or> (\<exists>c \<in> set (to_install @ new). ch_index c = ch_index ch)"
    using fold_add_for_downlink [of "ri_channels info" to_install] new(1) by simp
  then have "list_all (\<lambda>ch. downlink_of ch \<or> list_ex (\<lambda>c. ch_index c = ch_index ch) ?ins) (ri_channels info)"
    unfolding ins list_all_iff list_ex_iff set_map bex_simps(7) with_downlink_simps .
  moreover have "list_all (\<lambda>ch. ch_settings ch = None \<or> downlink_of ch) ?ins"
    using with_downlink_ok by (auto simp: ins list_all_iff)
  moreover have "list_all downlink_of (ri_channels info)" if "to_install @ new = []"
    using fold_add_for_downlink [of "ri_channels info" to_install] new(1) that by (simp add: list_all_iff)
  moreover have "new = []" if "list_all downlink_of (ri_channels info)"
  proof -
    have "{ch \<in> set (ri_channels info). \<not> downlink_of ch} = {}" using that by (auto simp: list_all_iff)
    with new(2) show ?thesis by simp
  qed
  ultimately show ?thesis unfolding Let_def ins by auto
qed

text \<open>With the phone ingress on another platform than OpenWrt no session changes a setting of the
  radio: it only sends the handshake request and what the bridge sends.\<close>

theorem phone_session_changes_no_settings:
  assumes "sh_ingress sh = Phone" and "cl_platform cli = Other_platform"
    and "run_session P A cli E info sh = (acts, sh', r)"
  shows "sh' = sh \<and> list_all (\<lambda>a. \<not> is_configure a \<and> \<not> is_install a) acts"
proof -
  have conn: "\<exists>effs r. run_connected P A cli E i sh = (map Bridge_effect effs, sh, r)" for i
    using assms(1,2) map_is_Nil_conv
    by (auto simp: run_connected_def session_channels_def plan_installs_def mqtt_setup_def Let_def
        intro: exI [of _ "[]"] split: option.split prod.split)
  show ?thesis
  proof (cases "session_handshake P (sn_port E) info")
    case (Pair ws hr)
    then have "list_all (\<lambda>a. \<not> is_configure a \<and> \<not> is_install a) ws"
      by (auto simp: session_handshake_def list_all_iff split: option.splits prod.splits)
    note ws = this
    show ?thesis
    proof (cases "\<exists>i. hr = Some (Inr i)")
      case True
      then obtain i effs cr where "hr = Some (Inr i)" "run_connected P A cli E i sh = (map Bridge_effect effs, sh, cr)"
        using conn by blast
      then show ?thesis using assms(3) ws by (auto simp: run_session_def Pair list_all_iff)
    next
      case False
      then show ?thesis
        using assms(3) ws by (auto simp: run_session_def Pair split: option.splits sum.splits)
    qed
  qed
qed

definition backoff :: "nat \<Rightarrow> nat" where
  "backoff k = min (2000 * 2 ^ k) 30000"

lemma backoff_step: "min (backoff k * 2) MAX_REOPEN_DELAY = backoff (Suc k)"
  by (simp add: backoff_def MAX_REOPEN_DELAY_def)

lemma open_fixed_backoff:
  "open_fixed (backoff k) (map Inl es @ Inr p # rest) = (map backoff [k ..< k + length es], Some (p, None))"
  by (induction es arbitrary: k) (simp_all add: backoff_step upt_conv_Cons del: upt_Suc)

lemma open_auto_backoff:
  assumes "list_all (\<lambda>a. snd (detect P (at_fs a) (at_pid a) (at_open a)) = Some None) as"
    and "snd (detect P (at_fs a) (at_pid a) (at_open a)) = Some (Some f)"
  shows "open_auto P (backoff k) (as @ a # rest) =
    (map backoff [k ..< k + length as], Some (fo_port f, Some (fo_info f)))"
  using assms(1)
  by (induction as arbitrary: k) (simp_all add: assms(2) backoff_step upt_conv_Cons del: upt_Suc)

text \<open>C37: the program keeps trying to open the port, or to find a radio in auto mode, with delays of
  2, 4, 8, 16 and then always 30 seconds, and takes the first success, in auto mode together with the
  handshake result of the probe.\<close>

theorem open_serial_retries:
  assumes "list_all (\<lambda>a. snd (detect P (at_fs a) (at_pid a) (at_open a)) = Some None) as"
    and "snd (detect P (at_fs a) (at_pid a) (at_open a)) = Some (Some f)"
  shows "open_serial P cli (as @ a # autos) (map Inl es @ Inr p # fixed) =
    (if cl_port cli = [] \<or> cl_port cli = ''auto''
     then (map (\<lambda>k. min (2000 * 2 ^ k) 30000) [0..<length as], Some (fo_port f, Some (fo_info f)))
     else (map (\<lambda>k. min (2000 * 2 ^ k) 30000) [0..<length es], Some (p, None)))"
proof -
  have start: "RECONNECT_DELAY = backoff 0" by (simp add: RECONNECT_DELAY_def backoff_def)
  have delays: "map backoff [0..<n] = map (\<lambda>k. min (2000 * 2 ^ k) 30000) [0..<n]" for n
    by (simp add: backoff_def)
  show ?thesis
    using open_auto_backoff [OF assms, of 0 autos]
    by (simp add: open_serial_def AUTO_PORT_def start open_fixed_backoff [of 0, simplified] flip: delays)
qed

section \<open>What ends the program\<close>

lemma run_loop_udp_failed: "snd (snd (run_loop P A b n evs)) = UdpFailed e \<Longrightarrow> UdpError e \<in> set evs"
  by (induction P A b n evs rule: run_loop.induct)
    (auto simp: all_readers_gone_def Let_def split: prod.splits bool.splits)

lemma mqtt_setup_no_udp: "mqtt_setup P E info sh \<noteq> (acts, sh', End_session (Inr (UdpFailed e)))"
  by (simp add: mqtt_setup_def Let_def split: option.split sum.split bool.split)

lemma run_connected_udp_failed:
  assumes "run_connected P A cli E info sh = (acts, sh', Some (Inr (UdpFailed e)))"
  shows "UdpError e \<in> set (sn_events E)"
proof -
  have "UdpError e \<in> set (sn_events E)" if "bridge_run P A failure b (sn_events E) = (effs, Inr (UdpFailed e))" for failure b effs
    using that run_loop_udp_failed [of P A b HEARTBEAT_NONCE_NODEINFO_PING "sn_events E" e]
    by (auto simp: bridge_run_def split: option.splits prod.splits)
  then show ?thesis
    using assms mqtt_setup_no_udp [of P E info sh]
    by (fastforce simp: run_connected_def Let_def split: prod.splits option.splits decision.splits)
qed

lemma run_session_udp_failed:
  "run_session P A cli E info sh = (acts, sh', Some (Inr (UdpFailed e))) \<Longrightarrow> UdpError e \<in> set (sn_events E)"
  by (auto simp: run_session_def dest: run_connected_udp_failed split: prod.splits option.splits sum.splits)

lemma main_loop_survives:
  assumes "\<forall>rd \<in> set rds. \<forall>e. UdpError e \<notin> set (sn_events (rd_env rd))"
  shows "mn_outcome (main_loop P A cli sh held rds) = Running"
  using assms
proof (induction rds arbitrary: sh held)
  case (Cons rd rds)
  obtain sleeps opened where o: "(if held then ([], Some (sn_port (rd_env rd), None))
      else open_serial P cli (rd_autos rd) (rd_fixed rd)) = (sleeps, opened)" by fastforce
  show ?case
  proof (cases opened)
    case (Some pi)
    obtain p info where pi: "pi = (p, info)" by fastforce
    obtain acts sh' r where s: "run_session P A cli ((rd_env rd)\<lparr>sn_port := p\<rparr>) info sh = (acts, sh', r)"
      by (cases "run_session P A cli ((rd_env rd)\<lparr>sn_port := p\<rparr>) info sh") auto
    have "r \<noteq> Some (Inr (UdpFailed e))" for e
      using run_session_udp_failed [of P A cli "(rd_env rd)\<lparr>sn_port := p\<rparr>" info sh acts sh' e] s Cons.prems by auto
    then show ?thesis
      using Cons.IH [of sh' True] Cons.IH [of sh' False] Cons.prems
      by (auto simp: o Some pi s Let_def split: option.split sum.split session_end.split)
  qed (simp add: o)
qed simp

text \<open>C18: nothing but a failure of the network ends the program: whatever the radio, the serial port, the file system
  and Raven's files do in any number of sessions, \<open>main\<close> goes on as long as the socket could be set up and
  no session receives an error from it; if the socket cannot be set up, it exits at once without touching a port.\<close>

theorem only_udp_failures_are_fatal:
  assumes "\<forall>rd \<in> set rounds. \<forall>e. UdpError e \<notin> set (sn_events (rd_env rd))"
  shows "case setup_multicast_socket os (cl_udp_addr cli) (cl_udp_port cli) (cl_interface cli) of
      Inr socket \<Rightarrow> mn_outcome (main P A cli os rounds) = Running
    | Inl e \<Rightarrow> mn_outcome (main P A cli os rounds) = Exited \<and> mn_actions (main P A cli os rounds) = []"
  by (simp add: main_def main_loop_survives [OF assms] split: sum.split)

section \<open>Examples\<close>

definition sample_cli :: cli where
  "sample_cli = \<lparr>cl_port = ''auto'', cl_baud = 115200, cl_udp_addr = 0xE0000045, cl_udp_port = 4403,
     cl_interface = None, cl_platform = Other_platform, cl_ingress = MqttProxy\<rparr>"

definition lonely_fs :: fs_env where
  "lonely_fs = \<lparr>read_dir = (\<lambda>_. None), utf8 = (\<lambda>_. True), canonicalize = Some, read_link = (\<lambda>_. None),
     linux = True, available_ports = Inr []\<rparr>"

lemma detect_nothing: "detect P lonely_fs pid sample_open = ([], Some None)"
  by (simp add: detect_def system_candidates_def candidates_def sorted_entries_def busy_devices_def lonely_fs_def Let_def)

lemma detect_sample: "\<exists>f. snd (detect sample_proto sample_fs 1 sample_open) = Some (Some f) \<and> fo_port f = answering_port"
proof -
  obtain info where info: "probe sample_proto answering_port PROBE_TIMEOUTS = Some (Inr info)"
    using answering_port_answers by blast
  then show ?thesis
    by (simp add: detect_def Let_def sample_open_def sample_fs_candidates sample_fs_free del: One_nat_def)
qed

theorem open_serial_retries_witness:
  "\<exists>info. open_serial sample_proto sample_cli
     (replicate 5 \<lparr>at_fs = lonely_fs, at_pid = 1, at_open = sample_open\<rparr>
        @ \<lparr>at_fs = sample_fs, at_pid = 1, at_open = sample_open\<rparr> # [])
     (map Inl [] @ Inr answering_port # [])
   = ([2000, 4000, 8000, 16000, 30000], Some (answering_port, Some info))"
proof -
  obtain f where f: "snd (detect sample_proto sample_fs 1 sample_open) = Some (Some f)" "fo_port f = answering_port"
    using detect_sample by blast
  let ?none = "replicate 5 \<lparr>at_fs = lonely_fs, at_pid = 1, at_open = sample_open\<rparr>"
  let ?hit = "\<lparr>at_fs = sample_fs, at_pid = 1, at_open = sample_open\<rparr>"
  have "list_all (\<lambda>a. snd (detect sample_proto (at_fs a) (at_pid a) (at_open a)) = Some None) ?none"
    by (simp add: list_all_iff detect_nothing)
  moreover have "snd (detect sample_proto (at_fs ?hit) (at_pid ?hit) (at_open ?hit)) = Some (Some f)"
    using f(1) by simp
  moreover have "map (\<lambda>k. min (2000 * 2 ^ k) 30000) [0..<length ?none] = [2000, 4000, 8000, 16000, 30000 :: nat]"
    by (simp add: upt_rec)
  ultimately show ?thesis
    using open_serial_retries [of sample_proto ?none ?hit f sample_cli "[]" "[]" answering_port "[]"] f(2)
    by (simp add: sample_cli_def)
qed

definition sample_session :: session_env where
  "sample_session =
     \<lparr>sn_port = answering_port, sn_raven = sample_raven, sn_install_write = (\<lambda>_. None), sn_mqtt_write = None,
      sn_reboot_start = 0, sn_reboot_inputs = [], sn_clone_error = None, sn_bridge_setup = None,
      sn_events = [SerialFrame [3]]\<rparr>"

theorem proxy_ingress_needs_enabled_proxy_witness:
  "sh_ingress (fst (snd (mqtt_setup sample_proto sample_session (radio_info_new :: unit radio_info)
     \<lparr>sh_ingress = MqttProxy, sh_attempted = True\<rparr>))) = Phone"
proof -
  let ?sh = "\<lparr>sh_ingress = MqttProxy, sh_attempted = True\<rparr>"
  obtain acts sh' d where m: "mqtt_setup sample_proto sample_session (radio_info_new :: unit radio_info) ?sh = (acts, sh', d)"
    by (cases "mqtt_setup sample_proto sample_session (radio_info_new :: unit radio_info) ?sh") auto
  from proxy_ingress_needs_enabled_proxy [OF m] have "sh_ingress sh' \<noteq> MqttProxy"
    by (simp add: radio_info_new_def)
  with m show ?thesis by (cases "sh_ingress sh'") simp_all
qed

theorem phone_session_changes_no_settings_witness:
  "list_all (\<lambda>a. \<not> is_configure a \<and> \<not> is_install a) (fst (run_session sample_proto sample_aes sample_cli sample_session
     (Some radio_info_new) \<lparr>sh_ingress = Phone, sh_attempted = False\<rparr>))"
proof -
  let ?s = "run_session sample_proto sample_aes sample_cli sample_session (Some radio_info_new) \<lparr>sh_ingress = Phone, sh_attempted = False\<rparr>"
  have "?s = (fst ?s, fst (snd ?s), snd (snd ?s))" by simp
  from phone_session_changes_no_settings [OF _ _ this] show ?thesis by (simp add: sample_cli_def)
qed

theorem only_udp_failures_are_fatal_witness:
  "mn_outcome (main sample_proto sample_aes sample_cli sample_os
     [\<lparr>rd_autos = [\<lparr>at_fs = sample_fs, at_pid = 1, at_open = sample_open\<rparr>], rd_fixed = [],
       rd_env = sample_session\<lparr>sn_events := [SerialError (Io_error OtherKind ''unplugged'')]\<rparr>\<rparr>]) = Running"
proof -
  have "\<exists>socket. setup_multicast_socket sample_os (cl_udp_addr sample_cli) (cl_udp_port sample_cli) (cl_interface sample_cli) = Inr socket"
    by (simp add: setup_multicast_socket_def sample_os_def sample_cli_def)
  then show ?thesis
    using only_udp_failures_are_fatal [where rounds = "[\<lparr>rd_autos = [\<lparr>at_fs = sample_fs, at_pid = 1, at_open = sample_open\<rparr>], rd_fixed = [],
       rd_env = sample_session\<lparr>sn_events := [SerialError (Io_error OtherKind ''unplugged'')]\<rparr>\<rparr>]"
        and os = sample_os and cli = sample_cli and P = sample_proto and A = sample_aes] by auto
qed

end
