(* ===== verification/Agreement.thy ===== *)
theory Agreement
  imports Session
begin

text \<open>
  What the program believes about the channels and what the radio has agree: after the channels of a session
  are installed, the keys the bridge works with are the keys the radio works with.  The radio keeps one
  channel per index; an admin message \<open>set_channel\<close> replaces the channel of its index.
\<close>

section \<open>The channels of the radio\<close>

type_synonym 'x radio_channels = "u32 \<Rightarrow> 'x channel option"

definition radio_table :: "'x channel list \<Rightarrow> 'x radio_channels" where
  "radio_table chs = map_of (map (\<lambda>ch. (ch_index ch, ch)) chs)"

definition set_channel :: "'x channel \<Rightarrow> 'x radio_channels \<Rightarrow> 'x radio_channels" where
  "set_channel ch t = t(ch_index ch \<mapsto> ch)"

text \<open>The key of a channel, as the handshake result derives it, and of each index.\<close>

definition key_of :: "'x radio_info \<Rightarrow> 'x channel \<Rightarrow> channel_key option" where
  "key_of info ch = map_option (\<lambda>s. channel_key_from_proto (ch_index ch)
     (channel_display_name (cs_name s) (ri_use_preset info) (ri_modem_preset info)) (cs_psk s)) (ch_settings ch)"

definition radio_keys :: "'x radio_info \<Rightarrow> 'x radio_channels \<Rightarrow> u32 \<Rightarrow> channel_key option" where
  "radio_keys info t i = Option.bind (t i) (key_of info)"

lemma radio_keys_set:
  "key_of info ch = Some ck \<Longrightarrow> radio_keys info (set_channel ch t) = (radio_keys info t)(ch_index ch \<mapsto> ck)"
  by (auto simp: radio_keys_def set_channel_def fun_eq_iff)

lemma channel_keys_map_filter: "channel_keys info = List.map_filter (key_of info) (ri_channels info)"
proof -
  have "key_of info = (\<lambda>ch. case ch_settings ch of None \<Rightarrow> None | Some settings \<Rightarrow>
      Some (channel_key_from_proto (ch_index ch)
        (channel_display_name (cs_name settings) (ri_use_preset info) (ri_modem_preset info)) (cs_psk settings)))"
    by (auto simp: key_of_def fun_eq_iff split: option.split)
  then show ?thesis by (simp add: channel_keys_def)
qed

lemma radio_keys_table:
  assumes "list_all (\<lambda>ch. ch_settings ch \<noteq> None) chs"
  shows "radio_keys info (radio_table chs) = table (List.map_filter (key_of info) chs)"
  using assms
proof (induction chs)
  case Nil
  show ?case by (simp add: radio_keys_def radio_table_def table_def map_filter_simps fun_eq_iff)
next
  case (Cons ch chs)
  from Cons.prems obtain ck where ck: "key_of info ch = Some ck" "ck_index ck = ch_index ch"
    by (auto simp: key_of_def)
  have "radio_table (ch # chs) = set_channel ch (radio_table chs)"
    by (simp add: radio_table_def set_channel_def)
  with Cons radio_keys_set [OF ck(1)] ck show ?case by (simp add: map_filter_simps table_def)
qed

lemma channel_keys_distinct:
  "distinct (map ch_index (ri_channels info)) \<Longrightarrow> distinct (map ck_index (channel_keys info))"
proof -
  have "map ck_index (List.map_filter (key_of info) chs) = map ch_index (filter (\<lambda>ch. ch_settings ch \<noteq> None) chs)" for chs
    by (induction chs) (auto simp: map_filter_simps key_of_def split: option.split)
  then show "distinct (map ch_index (ri_channels info)) \<Longrightarrow> distinct (map ck_index (channel_keys info))"
    by (simp add: channel_keys_map_filter distinct_map_filter)
qed

section \<open>Installing\<close>

text \<open>A channel made by the merge has a name, so the radio shows it under that name.\<close>

definition named :: "'x channel \<Rightarrow> bool" where
  "named ch \<longleftrightarrow> (\<exists>s. ch_settings ch = Some s \<and> cs_name s \<noteq> [])"

lemma key_of_named:
  "named ch \<Longrightarrow> radio_keys info (set_channel ch t) = install ch (radio_keys info t)"
  by (auto simp: named_def radio_keys_set [of info ch] key_of_def install_def channel_display_name_def)

lemma key_of_with_downlink [simp]: "key_of info (with_downlink ch) = key_of info ch"
  by (cases "ch_settings ch") (simp_all add: key_of_def with_downlink_def)

lemma radio_keys_with_downlink:
  "radio_keys info (fold set_channel (map with_downlink chs) t) = radio_keys info (fold set_channel chs t)"
proof (induction chs arbitrary: t rule: rev_induct)
  case (snoc ch chs)
  then show ?case by (auto simp: fun_eq_iff radio_keys_def set_channel_def)
qed simp

lemma radio_keys_named:
  "list_all named chs \<Longrightarrow> radio_keys info (fold set_channel chs t) = fold install chs (radio_keys info t)"
  by (induction chs arbitrary: t) (simp_all add: key_of_named)

text \<open>Writing a channel back that the table already has changes no key.\<close>

lemma set_present: "t (ch_index ch) = Some ch \<Longrightarrow> set_channel ch t = t"
  by (auto simp: set_channel_def fun_eq_iff)

lemma fold_set_present:
  "list_all (\<lambda>ch. t (ch_index ch) = Some ch) chs \<Longrightarrow> fold set_channel chs t = t"
  by (induction chs) (simp_all add: set_present)

lemma fold_set_other: "i \<notin> ch_index ` set chs \<Longrightarrow> fold set_channel chs t i = t i"
  by (induction chs arbitrary: t) (auto simp: set_channel_def)

lemma fold_add_for_downlink_new:
  "\<exists>new. fold add_for_downlink chs ins = ins @ new \<and> set new \<subseteq> set chs \<and>
     (\<forall>c \<in> set new. ch_index c \<notin> ch_index ` set ins)"
proof (induction chs arbitrary: ins)
  case (Cons ch chs)
  obtain new where new: "fold add_for_downlink chs (add_for_downlink ch ins) = add_for_downlink ch ins @ new"
      "set new \<subseteq> set chs" "\<forall>c \<in> set new. ch_index c \<notin> ch_index ` set (add_for_downlink ch ins)"
    using Cons.IH by blast
  show ?case
  proof (cases "downlink_of ch \<or> ch_index ch \<in> ch_index ` set ins")
    case True
    then have "add_for_downlink ch ins = ins" by (auto simp: add_for_downlink_def list_ex_iff)
    with new show ?thesis by (intro exI [of _ new]) auto
  next
    case False
    then have "\<forall>c \<in> set ins. ch_index c \<noteq> ch_index ch" by (metis image_eqI)
    with False have "add_for_downlink ch ins = ins @ [ch]" by (simp add: add_for_downlink_def list_ex_iff)
    with new False show ?thesis by (intro exI [of _ "ch # new"]) auto
  qed
qed simp

lemma merge_installs_named:
  assumes "[] \<notin> rc_name ` set rcs"
  shows "list_all named (mr_to_install (merge_channels P device rcs preset))"
proof -
  have made: "named (make_channel_proto P i role (rc_name rc) psk)" if "rc \<in> set rcs" for i role rc psk
    using assms that by (force simp: named_def make_channel_proto_def)
  have "list_all named (ms_install st) \<Longrightarrow> set rcs' \<subseteq> set rcs \<Longrightarrow>
      list_all named (ms_install (fold (merge_one P d) rcs' st))" for st d rcs'
  proof (induction rcs' arbitrary: st)
    case (Cons rc rcs')
    then have "list_all named (ms_install (merge_one P d rc st))"
      using made [of rc] by (cases rule: merge_one_cases [of d rc st P]) auto
    with Cons show ?case by simp
  qed simp
  then show ?thesis by (simp add: merge_channels_def Let_def)
qed

lemma radio_table_present:
  "distinct (map ch_index chs) \<Longrightarrow> ch \<in> set chs \<Longrightarrow> radio_table chs (ch_index ch) = Some ch"
  by (force simp: radio_table_def comp_def intro: map_of_is_SomeI)

text \<open>Enabling downlink on further channels of the radio leaves every key as the other installs left it.\<close>

lemma plan_keeps_keys:
  assumes "distinct (map ch_index (ri_channels info))"
  shows "radio_keys info (fold set_channel (plan_installs ing info ins) (radio_table (ri_channels info))) =
    radio_keys info (fold set_channel ins (radio_table (ri_channels info)))"
proof (cases ing)
  case MqttProxy
  let ?t = "radio_table (ri_channels info)"
  obtain new where new: "fold add_for_downlink (ri_channels info) ins = ins @ new"
      "set new \<subseteq> set (ri_channels info)" "\<forall>c \<in> set new. ch_index c \<notin> ch_index ` set ins"
    using fold_add_for_downlink_new by blast
  have "fold set_channel ins ?t (ch_index ch) = Some ch" if "ch \<in> set new" for ch
    using that new(2,3) radio_table_present [OF assms] fold_set_other by (metis subsetD)
  then have "fold set_channel new (fold set_channel ins ?t) = fold set_channel ins ?t"
    by (simp add: fold_set_present list_all_iff)
  then show ?thesis
    using radio_keys_with_downlink [of info "ins @ new" ?t] by (simp add: plan_installs_def MqttProxy new(1))
qed (simp add: plan_installs_def)

lemma merge_keys_agree:
  assumes "distinct (map ck_index device)" and "unat (max_index_of device) + length rcs < 2 ^ 32"
  shows "fold install (mr_to_install (merge_channels P device rcs preset)) (table device) =
    table (mr_channels (merge_channels P device rcs preset))"
proof -
  let ?st = "\<lparr>ms_merged = device, ms_install = [], ms_max_index = max_index_of device\<rparr>"
  have "merge_ok (length rcs) ?st" using assms max_index_of_ge by (simp add: merge_ok_def)
  from merge_fold_ok [OF this, of "table device" P "modem_preset_name preset"] show ?thesis
    by (simp add: merge_channels_def Let_def)
qed

section \<open>Property\<close>

text \<open>The channels of Raven that a session can merge: with names, and few enough for the index counter.\<close>

definition mergeable :: "'x radio_info \<Rightarrow> parsed_raven_channel list \<Rightarrow> bool" where
  "mergeable info rcs \<longleftrightarrow> [] \<notin> rc_name ` set rcs \<and> unat (max_index_of (channel_keys info)) + length rcs < 2 ^ 32"

text \<open>C15: when every planned install of a session has reached the radio, the key of every channel index of the
  radio is the key the bridge of that session uses for it, and neither has a channel the other lacks: on any platform,
  with either ingress, whatever Raven's files say.\<close>

theorem session_keys_agree:
  assumes "distinct (map ch_index (ri_channels info))" and "list_all (\<lambda>ch. ch_settings ch \<noteq> None) (ri_channels info)"
    and "case load_raven_channels E of Inr (Some rcs) \<Rightarrow> mergeable info rcs | _ \<Rightarrow> True"
    and "session_channels P cli E info = (channels, to_install)"
  shows "radio_keys info (fold set_channel (plan_installs ing info to_install) (radio_table (ri_channels info))) = table channels"
proof -
  let ?t = "radio_table (ri_channels info)"
  have start: "radio_keys info ?t = table (channel_keys info)"
    using radio_keys_table [OF assms(2), of info] by (simp add: channel_keys_map_filter)
  show ?thesis
  proof (cases "cl_platform cli = OpenWrt \<and> (\<exists>rcs. load_raven_channels E = Inr (Some rcs))")
    case True
    then obtain rcs where rcs: "cl_platform cli = OpenWrt" "load_raven_channels E = Inr (Some rcs)" by blast
    let ?m = "merge_channels P (channel_keys info) rcs (ri_modem_preset info)"
    have m: "channels = mr_channels ?m" "to_install = mr_to_install ?m"
      using assms(4) rcs by (simp_all add: session_channels_def Let_def)
    have ok: "mergeable info rcs" using assms(3) rcs(2) by simp
    have "radio_keys info (fold set_channel to_install ?t) = fold install to_install (table (channel_keys info))"
      using radio_keys_named [OF merge_installs_named, of rcs info P] ok m(2) by (simp add: mergeable_def start)
    also have "\<dots> = table channels"
      using merge_keys_agree [OF channel_keys_distinct [OF assms(1)], of rcs P "ri_modem_preset info"] ok m
      by (simp add: mergeable_def)
    finally show ?thesis by (simp add: plan_keeps_keys [OF assms(1)])
  next
    case False
    then have "channels = channel_keys info \<and> to_install = []"
      using assms(4) by (auto simp: session_channels_def Let_def split: if_splits sum.splits option.splits)
    then show ?thesis by (simp add: plan_keeps_keys [OF assms(1)] start)
  qed
qed

text \<open>A radio with a nameless primary channel and one more, and a Raven configuration that changes the key of
  one channel and adds another.\<close>

definition field_radio :: "unit radio_info" where
  "field_radio = radio_info_new\<lparr>ri_use_preset := True, ri_channels :=
     [\<lparr>ch_index = 0, ch_role = 1,
       ch_settings = Some \<lparr>cs_name = [], cs_psk = [1], cs_downlink_enabled = False, cs_rest = ()\<rparr>\<rparr>,
      \<lparr>ch_index = 1, ch_role = 2,
       ch_settings = Some \<lparr>cs_name = ''Ops'', cs_psk = [7], cs_downlink_enabled = True, cs_rest = ()\<rparr>\<rparr>]\<rparr>"

definition field_raven :: raven_env where
  "field_raven = \<lparr>read_to_string = (\<lambda>path. if path = RAVEN_CONF_PATH then Inr [] else Inl (Io_error NotFound [])),
     json_from_str = (\<lambda>_. Inr (Json_object [])), namekeys = (\<lambda>_. Inr [''Ops AQ=='', ''AREDN AQ=='']),
     base64_decode = (\<lambda>s. if s = ''AQ=='' then Inr [1] else Inl [])\<rparr>"

definition field_cli :: cli where
  "field_cli = sample_cli\<lparr>cl_platform := OpenWrt\<rparr>"

lemma field_raven_channels:
  "load_raven_channels field_raven = Inr (Some [\<lparr>rc_name = ''Ops'', rc_psk = [1]\<rparr>, \<lparr>rc_name = ''AREDN'', rc_psk = [1]\<rparr>])"
  by (simp add: load_raven_channels_def load_raven_channels_with_override_def field_raven_def invalid_data_def
      RAVEN_CONF_PATH_def RAVEN_CONF_OVERRIDE_PATH_def parse_namekey_def rsplit_once_space_def)

lemma field_radio_keys:
  "channel_keys field_radio = [channel_key_from_proto 0 ''LongFast'' [1], channel_key_from_proto 1 ''Ops'' [7]]"
  by (simp add: channel_keys_def field_radio_def radio_info_new_def map_filter_simps channel_display_name_def modem_preset_name_def)

theorem session_keys_agree_witness:
  "radio_keys field_radio (fold set_channel
     (plan_installs MqttProxy field_radio (snd (session_channels sample_proto field_cli field_raven field_radio)))
     (radio_table (ri_channels field_radio))) =
   table (fst (session_channels sample_proto field_cli field_raven field_radio))"
proof (rule session_keys_agree)
  show "distinct (map ch_index (ri_channels field_radio))"
    and "list_all (\<lambda>ch. ch_settings ch \<noteq> None) (ri_channels field_radio)"
    by (simp_all add: field_radio_def radio_info_new_def)
  show "case load_raven_channels field_raven of Inr (Some rcs) \<Rightarrow> mergeable field_radio rcs | _ \<Rightarrow> True"
    by (simp add: field_raven_channels field_radio_keys mergeable_def max_index_of_def)
qed simp

section \<open>Observations\<close>

text \<open>The handshake result never has a nameless channel key, so the case of the merge that matches a nameless
  primary channel by the preset's name never applies to the radio's channels.\<close>

lemma effective_on_radio_channels:
  "c \<in> set (channel_keys info) \<Longrightarrow> effective d rc c \<longleftrightarrow> ck_name c = rc_name rc"
  using channel_keys_ok [of c info] by (simp add: effective_def)

text \<open>A channel whose key Raven changes is written with default settings beside name and key: what else the
  radio had set on the channel is lost.  With the phone ingress this turns downlink off, as on channel 1 here.\<close>

lemma raven_update_turns_downlink_off:
  "map_option downlink_of (radio_table (ri_channels field_radio) 1) = Some True \<and>
   map_option downlink_of (fold set_channel
     (plan_installs Phone field_radio (snd (session_channels sample_proto field_cli field_raven field_radio)))
     (radio_table (ri_channels field_radio)) 1) = Some False"
proof -
  have "expand_psk [7] \<noteq> expand_psk [1]" by (simp add: expand_psk_def Let_def DEFAULT_PSK_def)
  then have "mr_to_install (merge_channels sample_proto (channel_keys field_radio)
      [\<lparr>rc_name = ''Ops'', rc_psk = [1]\<rparr>, \<lparr>rc_name = ''AREDN'', rc_psk = [1]\<rparr>] 0) =
    [make_channel_proto sample_proto 1 2 ''Ops'' [1], make_channel_proto sample_proto 2 2 ''AREDN'' [1]]"
    by (simp add: merge_channels_def field_radio_keys max_index_of_def merge_one_def effective_def)
  then have "snd (session_channels sample_proto field_cli field_raven field_radio) =
    [make_channel_proto sample_proto 1 2 ''Ops'' [1], make_channel_proto sample_proto 2 2 ''AREDN'' [1]]"
    by (simp add: session_channels_def field_raven_channels field_cli_def Let_def, simp add: field_radio_def radio_info_new_def)
  then show ?thesis
    by (simp add: plan_installs_def set_channel_def make_channel_proto_def downlink_of_def channel_settings_default_def)
      (simp add: field_radio_def radio_info_new_def radio_table_def downlink_of_def)
qed

end
