(* ===== verification/Threads.thy ===== *)
theory Threads
  imports Lan "HOL-Library.Sublist"
begin

text \<open>
  The concurrency of \<open>Bridge::run\<close>: the three threads send their events into one channel, in any
  interleaving, while the main thread takes them out in the order of the channel and handles them until
  the session ends.  A thread is the list of the events it is still going to send, and the system stops when the
  session has ended.  How a thread comes to its list while inputs arrive, and how the session is closed down,
  is the subject of theory \<open>Lifecycle\<close>, which refines this system.
\<close>

record threads =
  th_serial :: "bridge_event list"
  th_udp :: "bridge_event list"
  th_timer :: "bridge_event list"
  th_queue :: "bridge_event list"
  th_main :: "bridge \<times> u32"
  th_out :: "effect list"
  th_end :: "session_end option"

definition threads_init ::
  "bridge \<Rightarrow> (bool \<times> read_outcome) list \<Rightarrow> (bool \<times> read_outcome) list \<Rightarrow> nat \<Rightarrow> (bool \<times> nat) list \<Rightarrow> threads" where
  "threads_init b serial_in udp_in now timer_in =
     \<lparr>th_serial = serial_reader FrameReader_new serial_in, th_udp = udp_reader udp_in,
      th_timer = heartbeat_timer (now + HEARTBEAT_INTERVAL) timer_in,
      th_queue = [], th_main = (b, HEARTBEAT_NONCE_NODEINFO_PING), th_out = [], th_end = None\<rparr>"

inductive thread_step :: "'x proto \<Rightarrow> aes_crate \<Rightarrow> threads \<Rightarrow> threads \<Rightarrow> bool" for P :: "'x proto" and A :: aes_crate where
  send_serial: "th_end s = None \<Longrightarrow> th_serial s = ev # evs \<Longrightarrow>
    thread_step P A s (s\<lparr>th_serial := evs, th_queue := th_queue s @ [ev]\<rparr>)"
| send_udp: "th_end s = None \<Longrightarrow> th_udp s = ev # evs \<Longrightarrow>
    thread_step P A s (s\<lparr>th_udp := evs, th_queue := th_queue s @ [ev]\<rparr>)"
| send_tick: "th_end s = None \<Longrightarrow> th_timer s = ev # evs \<Longrightarrow>
    thread_step P A s (s\<lparr>th_timer := evs, th_queue := th_queue s @ [ev]\<rparr>)"
| handle: "th_end s = None \<Longrightarrow> th_queue s = ev # evs \<Longrightarrow> ends P ev = None \<Longrightarrow>
    thread_step P A s (s\<lparr>th_queue := evs, th_main := fst (loop_step P A (th_main s) ev),
                         th_out := th_out s @ snd (loop_step P A (th_main s) ev)\<rparr>)"
| leave: "th_end s = None \<Longrightarrow> th_queue s = ev # evs \<Longrightarrow> ends P ev = Some r \<Longrightarrow>
    thread_step P A s (s\<lparr>th_queue := evs, th_end := Some r\<rparr>)"
| disconnected: "th_end s = None \<Longrightarrow> th_serial s = [] \<Longrightarrow> th_udp s = [] \<Longrightarrow> th_timer s = [] \<Longrightarrow> th_queue s = [] \<Longrightarrow>
    thread_step P A s (s\<lparr>th_end := Some all_readers_gone\<rparr>)"

inductive_cases thread_stepE: "thread_step P A s s'"

section \<open>Who sends what\<close>

definition serial_event :: "bridge_event \<Rightarrow> bool" where
  "serial_event ev = (case ev of SerialFrame _ \<Rightarrow> True | SerialError _ \<Rightarrow> True | _ \<Rightarrow> False)"

lemma serial_event_simps [simp]:
  "serial_event (SerialFrame p)" "serial_event (SerialError e)" "\<not> serial_event (UdpPacket d)"
  "\<not> serial_event (UdpError e)" "\<not> serial_event Tick"
  by (simp_all add: serial_event_def)

lemma serial_reader_events: "ev \<in> set (serial_reader r ins) \<Longrightarrow> serial_event ev"
  by (induction r ins rule: serial_reader.induct)
    (auto split: if_splits read_outcome.splits list.splits prod.splits)

lemma udp_reader_events: "ev \<in> set (udp_reader ins) \<Longrightarrow> \<not> serial_event ev"
  by (induction ins rule: udp_reader.induct) (auto split: if_splits read_outcome.splits)

lemma heartbeat_timer_events: "ev \<in> set (heartbeat_timer t ins) \<Longrightarrow> ev = Tick"
  by (induction t ins rule: heartbeat_timer.induct) (auto split: if_splits)

section \<open>What a serial event sends to the LAN\<close>

definition lan_output :: "'x proto \<Rightarrow> aes_crate \<Rightarrow> bridge \<Rightarrow> bridge_event \<Rightarrow> bytes list" where
  "lan_output P A b ev = datagrams (snd (bridge_step P A b ev))"

lemma lan_output_recent [simp]: "lan_output P A (b\<lparr>br_recent := r\<rparr>) ev = lan_output P A b ev" if "serial_event ev"
proof (cases ev)
  case (SerialFrame payload)
  then show ?thesis by (simp add: lan_output_def bridge_step_serial split: radio_frame.split)
qed (use that in \<open>simp_all add: lan_output_def bridge_step_def\<close>)

lemma lan_output_other: "\<not> serial_event ev \<Longrightarrow> datagrams (snd (loop_step P A s ev)) = []"
  by (cases ev)
    (auto simp: loop_step_def bridge_step_def handle_udp_packet_def Let_def
      split: option.split prod.split bool.split ingress.split)

lemma loop_step_bridge: "\<exists>r. fst (fst (loop_step P A s ev)) = (fst s)\<lparr>br_recent := r\<rparr>"
proof (cases "ev = Tick")
  case True
  have "fst s = (fst s)\<lparr>br_recent := br_recent (fst s)\<rparr>" by simp
  with True show ?thesis by (auto simp: loop_step_def intro: exI [of _ "br_recent (fst s)"])
next
  case False
  then have "fst (fst (loop_step P A s ev)) = fst (bridge_step P A (fst s) ev)"
    by (cases ev) (simp_all add: loop_step_def split: prod.split)
  then show ?thesis using bridge_step_state [of P A "fst s" ev] by auto
qed

lemma loop_step_serial:
  "serial_event ev \<Longrightarrow> datagrams (snd (loop_step P A s ev)) = lan_output P A (fst s) ev"
  by (cases ev) (auto simp: loop_step_def lan_output_def split: prod.split)

section \<open>Invariant\<close>

definition threads_inv :: "'x proto \<Rightarrow> aes_crate \<Rightarrow> bridge \<Rightarrow> bridge_event list \<Rightarrow> threads \<Rightarrow> bool" where
  "threads_inv P A b frames s \<longleftrightarrow>
     (\<exists>r. fst (th_main s) = b\<lparr>br_recent := r\<rparr>) \<and>
     list_all serial_event frames \<and>
     (\<forall>ev \<in> set (th_udp s) \<union> set (th_timer s). \<not> serial_event ev) \<and>
     (\<exists>handled rest. frames = handled @ rest \<and>
        datagrams (th_out s) = concat (map (lan_output P A b) handled) \<and>
        (th_end s = None \<longrightarrow> rest = filter serial_event (th_queue s) @ th_serial s))"

lemma threads_inv_init:
  "threads_inv P A b (serial_reader FrameReader_new sin) (threads_init b sin uin now tin)"
  unfolding threads_inv_def
proof (intro conjI exI)
  let ?s = "threads_init b sin uin now tin"
  show "fst (th_main ?s) = b\<lparr>br_recent := br_recent b\<rparr>" by (simp add: threads_init_def)
  show "list_all serial_event (serial_reader FrameReader_new sin)"
    using serial_reader_events by (auto simp: list_all_iff)
  show "\<forall>ev \<in> set (th_udp ?s) \<union> set (th_timer ?s). \<not> serial_event ev"
    using udp_reader_events heartbeat_timer_events by (fastforce simp: threads_init_def)
  show "serial_reader FrameReader_new sin = [] @ serial_reader FrameReader_new sin"
    and "datagrams (th_out ?s) = concat (map (lan_output P A b) [])"
    and "th_end ?s = None \<longrightarrow> serial_reader FrameReader_new sin = filter serial_event (th_queue ?s) @ th_serial ?s"
    by (simp_all add: threads_init_def)
qed

lemma threads_inv_step:
  assumes "thread_step P A s s'" and "threads_inv P A b frames s"
  shows "threads_inv P A b frames s'"
proof -
  obtain r handled rest where inv: "fst (th_main s) = b\<lparr>br_recent := r\<rparr>" "list_all serial_event frames"
      "\<forall>ev \<in> set (th_udp s) \<union> set (th_timer s). \<not> serial_event ev"
      "frames = handled @ rest" "datagrams (th_out s) = concat (map (lan_output P A b) handled)"
      "th_end s = None \<longrightarrow> rest = filter serial_event (th_queue s) @ th_serial s"
    using assms(2) unfolding threads_inv_def by (elim conjE exE) (rule that; assumption)
  from assms(1) show ?thesis
  proof cases
    case (send_serial ev evs)
    then have "serial_event ev" using inv(2,4,6) by simp
    with send_serial inv show ?thesis by (auto simp: threads_inv_def)
  next
    case (send_udp ev evs)
    with inv show ?thesis by (auto simp: threads_inv_def)
  next
    case (send_tick ev evs)
    with inv show ?thesis by (auto simp: threads_inv_def)
  next
    case (handle ev evs)
    obtain r' where r': "fst (fst (loop_step P A (th_main s) ev)) = b\<lparr>br_recent := r'\<rparr>"
      using loop_step_bridge [of P A "th_main s" ev] inv(1) by auto
    show ?thesis
    proof (cases "serial_event ev")
      case True
      have "datagrams (snd (loop_step P A (th_main s) ev)) = lan_output P A b ev"
        by (simp only: loop_step_serial [OF True] inv(1) lan_output_recent [OF True])
      then have "datagrams (th_out s') = concat (map (lan_output P A b) (handled @ [ev]))"
        using handle inv(5) by simp
      moreover have "frames = (handled @ [ev]) @ filter serial_event evs @ th_serial s"
        using handle inv(4,6) True by simp
      ultimately show ?thesis
        using handle r' inv(2,3) unfolding threads_inv_def by fastforce
    next
      case False
      then have "datagrams (th_out s') = concat (map (lan_output P A b) handled)"
        using handle inv(5) lan_output_other by simp
      with handle False r' inv show ?thesis unfolding threads_inv_def by fastforce
    qed
  next
    case (leave ev evs r')
    with inv show ?thesis by (auto simp: threads_inv_def)
  next
    case disconnected
    with inv show ?thesis by (auto simp: threads_inv_def)
  qed
qed

lemma threads_inv_reachable:
  "(thread_step P A)\<^sup>*\<^sup>* s s' \<Longrightarrow> threads_inv P A b frames s \<Longrightarrow> threads_inv P A b frames s'"
  by (induction rule: rtranclp_induct) (auto intro: threads_inv_step)

section \<open>Refinement of the sequential loop\<close>

definition prepend :: "effect list \<Rightarrow> bridge \<times> effect list \<times> session_end \<Rightarrow> bridge \<times> effect list \<times> session_end" where
  "prepend eff r = (fst r, eff @ fst (snd r), snd (snd r))"

lemma prepend_prepend [simp]: "prepend e (prepend e' r) = prepend (e @ e') r"
  by (simp add: prepend_def)

lemma prepend_Nil [simp]: "prepend [] r = r"
  by (simp add: prepend_def)

lemma run_loop_goes_on:
  assumes "ends P ev = None"
  shows "run_loop P A b n (ev # future) =
    prepend (snd (loop_step P A (b, n) ev))
      (run_loop P A (fst (fst (loop_step P A (b, n) ev))) (snd (fst (loop_step P A (b, n) ev))) future)"
proof (cases ev)
  case (SerialFrame payload)
  with assms have "decode_frame P payload \<noteq> Rebooted" by (auto simp: ends_def)
  with SerialFrame show ?thesis
    by (simp del: run_loop.simps add: run_loop_serial_frame loop_step_def prepend_def split: prod.split)
qed (use assms in \<open>auto simp: ends_def loop_step_def bridge_step_udp prepend_def Let_def split: prod.split\<close>)

lemma run_loop_ends: "ends P ev = Some r \<Longrightarrow> run_loop P A b n (ev # future) = (b, [], r)"
  by (cases ev)
    (auto simp: ends_def run_loop_serial_frame simp del: run_loop.simps(2) split: radio_frame.splits)

definition udp_event :: "bridge_event \<Rightarrow> bool" where
  "udp_event ev = (case ev of UdpPacket _ \<Rightarrow> True | UdpError _ \<Rightarrow> True | _ \<Rightarrow> False)"

lemma udp_reader_sends: "ev \<in> set (udp_reader ins) \<Longrightarrow> udp_event ev"
  by (induction ins rule: udp_reader.induct) (auto simp: udp_event_def split: if_splits read_outcome.splits)

text \<open>A thread's part of the events in a list, followed by what it will still send, is all it sends.\<close>

definition parted :: "bridge_event list \<Rightarrow> threads \<Rightarrow> threads \<Rightarrow> bool" where
  "parted evs s0 s \<longleftrightarrow>
     filter serial_event evs @ th_serial s = th_serial s0 \<and>
     filter udp_event evs @ th_udp s = th_udp s0 \<and>
     filter (\<lambda>ev. ev = Tick) evs @ th_timer s = th_timer s0"

definition origins_ok :: "threads \<Rightarrow> bool" where
  "origins_ok s \<longleftrightarrow> list_all serial_event (th_serial s) \<and> list_all udp_event (th_udp s) \<and>
     list_all (\<lambda>ev. ev = Tick) (th_timer s)"

definition replays :: "'x proto \<Rightarrow> aes_crate \<Rightarrow> threads \<Rightarrow> threads \<Rightarrow> bool" where
  "replays P A s0 s \<longleftrightarrow> origins_ok s \<and> (\<exists>handled. parted (handled @ th_queue s) s0 s \<and>
     (case th_end s of
        None \<Rightarrow> (\<forall>future. run_loop P A (fst (th_main s0)) (snd (th_main s0)) (handled @ future) =
                   prepend (th_out s) (run_loop P A (fst (th_main s)) (snd (th_main s)) future))
      | Some r \<Rightarrow> run_loop P A (fst (th_main s0)) (snd (th_main s0)) handled = (fst (th_main s), th_out s, r)))"

lemma parted_send:
  "serial_event ev \<Longrightarrow> \<not> udp_event ev \<and> ev \<noteq> Tick"
  "udp_event ev \<Longrightarrow> \<not> serial_event ev \<and> ev \<noteq> Tick"
  "\<not> serial_event Tick \<and> \<not> udp_event Tick"
  by (cases ev; simp add: udp_event_def)+

lemma replays_step:
  assumes "thread_step P A s s'" and "replays P A s0 s"
  shows "replays P A s0 s'"
proof -
  obtain handled where h: "origins_ok s" "parted (handled @ th_queue s) s0 s"
    and run: "case th_end s of
        None \<Rightarrow> (\<forall>future. run_loop P A (fst (th_main s0)) (snd (th_main s0)) (handled @ future) =
                   prepend (th_out s) (run_loop P A (fst (th_main s)) (snd (th_main s)) future))
      | Some r \<Rightarrow> run_loop P A (fst (th_main s0)) (snd (th_main s0)) handled = (fst (th_main s), th_out s, r)"
    using assms(2) unfolding replays_def by (elim conjE exE) (rule that; assumption)
  from assms(1) show ?thesis
  proof cases
    case (send_serial ev evs)
    then have "serial_event ev" using h(1) by (simp add: origins_ok_def)
    with send_serial h run parted_send(1) [of ev] show ?thesis
      unfolding replays_def by (intro conjI exI [of _ handled]) (auto simp: origins_ok_def parted_def)
  next
    case (send_udp ev evs)
    then have "udp_event ev" using h(1) by (simp add: origins_ok_def)
    with send_udp h run parted_send(2) [of ev] show ?thesis
      unfolding replays_def by (intro conjI exI [of _ handled]) (auto simp: origins_ok_def parted_def)
  next
    case (send_tick ev evs)
    then have "ev = Tick" using h(1) by (simp add: origins_ok_def)
    with send_tick h run parted_send(3) show ?thesis
      unfolding replays_def by (intro conjI exI [of _ handled]) (auto simp: origins_ok_def parted_def)
  next
    case (handle ev evs)
    have "run_loop P A (fst (th_main s0)) (snd (th_main s0)) ((handled @ [ev]) @ future) =
        prepend (th_out s') (run_loop P A (fst (th_main s')) (snd (th_main s')) future)" for future
      using run handle run_loop_goes_on [OF handle(4), of A "fst (th_main s)" "snd (th_main s)" future]
      by (simp del: run_loop.simps)
    with handle h show ?thesis
      unfolding replays_def by (intro conjI exI [of _ "handled @ [ev]"]) (auto simp: origins_ok_def parted_def)
  next
    case (leave ev evs r)
    have "run_loop P A (fst (th_main s0)) (snd (th_main s0)) (handled @ [ev]) = (fst (th_main s), th_out s, r)"
      using run leave run_loop_ends [OF leave(4), of A "fst (th_main s)" "snd (th_main s)" "[]"]
      by (simp del: run_loop.simps add: prepend_def)
    with leave h show ?thesis
      unfolding replays_def by (intro conjI exI [of _ "handled @ [ev]"]) (auto simp: origins_ok_def parted_def)
  next
    case disconnected
    have "run_loop P A (fst (th_main s0)) (snd (th_main s0)) handled = (fst (th_main s), th_out s, all_readers_gone)"
      using run disconnected by (auto dest: spec [of _ "[]"] simp: prepend_def)
    with disconnected h show ?thesis
      unfolding replays_def by (intro conjI exI [of _ handled]) (auto simp: origins_ok_def parted_def)
  qed
qed

lemma replays_reachable: "(thread_step P A)\<^sup>*\<^sup>* s s' \<Longrightarrow> replays P A s0 s \<Longrightarrow> replays P A s0 s'"
  by (induction rule: rtranclp_induct) (auto intro: replays_step)

section \<open>Progress\<close>

definition work_left :: "threads \<Rightarrow> nat" where
  "work_left s = 2 * (length (th_serial s) + length (th_udp s) + length (th_timer s)) + length (th_queue s)
     + (if th_end s = None then 1 else 0)"

lemma work_decreases: "thread_step P A s s' \<Longrightarrow> work_left s' < work_left s"
  by (erule thread_stepE) (simp_all add: work_left_def)

lemma work_bound: "(thread_step P A ^^ n) s s' \<Longrightarrow> n + work_left s' \<le> work_left s"
proof (induction n arbitrary: s')
  case (Suc n)
  then obtain t where "(thread_step P A ^^ n) s t" "thread_step P A t s'" by auto
  with Suc.IH [of t] work_decreases [of P A t s'] show ?case by simp
qed simp

lemma not_stuck: "th_end s = None \<Longrightarrow> \<exists>s'. thread_step P A s s'"
proof (cases "th_queue s")
  case (Cons ev evs)
  assume "th_end s = None"
  with Cons show ?thesis by (cases "ends P ev") (blast intro: handle leave)+
next
  case Nil
  assume "th_end s = None"
  with Nil show ?thesis
    by (cases "th_serial s"; cases "th_udp s"; cases "th_timer s") (blast intro: send_serial send_udp send_tick disconnected)+
qed

section \<open>Properties\<close>

text \<open>Whatever the interleaving of the three threads and the dispatch loop, a session that has ended is
  a run of the sequential loop on some sequence of events in which the events of each thread occur in
  the order in which the thread sends them.\<close>

theorem threads_refine_loop:
  assumes "(thread_step P A)\<^sup>*\<^sup>* (threads_init b sin uin now tin) s" and "th_end s = Some r"
  shows "\<exists>evs. run_loop P A b HEARTBEAT_NONCE_NODEINFO_PING evs = (fst (th_main s), th_out s, r) \<and>
    prefix (filter serial_event evs) (serial_reader FrameReader_new sin) \<and>
    prefix (filter udp_event evs) (udp_reader uin) \<and>
    prefix (filter (\<lambda>ev. ev = Tick) evs) (heartbeat_timer (now + HEARTBEAT_INTERVAL) tin)"
proof -
  let ?s0 = "threads_init b sin uin now tin"
  have "replays P A ?s0 ?s0"
    using serial_reader_events udp_reader_sends heartbeat_timer_events
    by (auto simp: replays_def origins_ok_def parted_def threads_init_def list_all_iff intro!: exI [of _ "[]"])
  with replays_reachable [OF assms(1)] assms(2) obtain handled where
    h: "parted (handled @ th_queue s) ?s0 s"
      "run_loop P A b HEARTBEAT_NONCE_NODEINFO_PING handled = (fst (th_main s), th_out s, r)"
    by (fastforce simp: replays_def threads_init_def)
  then have "serial_reader FrameReader_new sin = filter serial_event handled @ (filter serial_event (th_queue s) @ th_serial s)"
    and "udp_reader uin = filter udp_event handled @ (filter udp_event (th_queue s) @ th_udp s)"
    and "heartbeat_timer (now + HEARTBEAT_INTERVAL) tin =
      filter (\<lambda>ev. ev = Tick) handled @ (filter (\<lambda>ev. ev = Tick) (th_queue s) @ th_timer s)"
    by (simp_all add: parted_def threads_init_def)
  then have "prefix (filter serial_event handled) (serial_reader FrameReader_new sin)"
    and "prefix (filter udp_event handled) (udp_reader uin)"
    and "prefix (filter (\<lambda>ev. ev = Tick) handled) (heartbeat_timer (now + HEARTBEAT_INTERVAL) tin)"
    by (simp_all only: prefixI)
  with h(2) show ?thesis by blast
qed

text \<open>At every moment, the datagrams a session has sent are an initial part of what the frames of the
  radio, taken one by one in the order of the serial stream, lead to: nothing that arrives from the LAN
  in between, and no timing, drops, reorders or duplicates a packet on its way to the LAN.\<close>

theorem lan_keeps_radio_order:
  assumes "(thread_step P A)\<^sup>*\<^sup>* (threads_init b sin uin now tin) s"
  shows "prefix (datagrams (th_out s)) (concat (map (lan_output P A b) (serial_reader FrameReader_new sin)))"
  using threads_inv_reachable [OF assms threads_inv_init] by (auto simp: threads_inv_def)

text \<open>With finitely many events to send the session takes at most so many steps, and as long as it has not
  ended it can go on: no deadlock, and every maximal run ends the session.\<close>

theorem session_ends:
  assumes "(thread_step P A ^^ n) (threads_init b sin uin now tin) s"
  shows "n \<le> 2 * (length (serial_reader FrameReader_new sin) + length (udp_reader uin) +
      length (heartbeat_timer (now + HEARTBEAT_INTERVAL) tin)) + 1 \<and>
    (th_end s \<noteq> None \<or> (\<exists>s'. thread_step P A s s'))"
  using work_bound [OF assms] not_stuck [of s P A] by (auto simp: work_left_def threads_init_def split: if_splits)

section \<open>Examples\<close>

definition sample_serial_in :: "(bool \<times> read_outcome) list" where
  "sample_serial_in = [(False, Read_ok [0x94, 0xC3, 0, 9, 4, 17, 255, 42, 0]), (False, Read_ok [0, 1, 104, 105]), (False, Read_ok [])]"

abbreviation port_closed :: io_error where
  "port_closed \<equiv> Io_error UnexpectedEof ''serial port closed''"

abbreviation sample_threads :: threads where
  "sample_threads \<equiv> threads_init (sample_bridge Phone 9 0) sample_serial_in [] 0 []"

lemma sample_serial_events:
  "serial_reader FrameReader_new sample_serial_in = [SerialFrame [4, 17, 255, 42, 0, 0, 1, 104, 105], SerialError port_closed]"
  by (simp add: sample_serial_in_def wire_simps)

lemma sample_run:
  "\<exists>s. (thread_step sample_proto sample_aes ^^ 4) sample_threads s \<and> th_end s = Some (SerialLost port_closed)"
proof -
  let ?f = "SerialFrame [4, 17, 255, 42, 0, 0, 1, 104, 105]" and ?e = "SerialError port_closed"
  let ?step = "thread_step sample_proto sample_aes"
  have f: "ends sample_proto ?f = None" and e: "ends sample_proto ?e = Some (SerialLost port_closed)"
    by (simp_all add: ends_def decode_frame_def)
  define s1 where "s1 = sample_threads\<lparr>th_serial := [?e], th_queue := [?f]\<rparr>"
  define s2 where "s2 = s1\<lparr>th_serial := [], th_queue := [?f, ?e]\<rparr>"
  define s3 where "s3 = s2\<lparr>th_queue := [?e], th_main := fst (loop_step sample_proto sample_aes (th_main s2) ?f),
    th_out := th_out s2 @ snd (loop_step sample_proto sample_aes (th_main s2) ?f)\<rparr>"
  define s4 where "s4 = s3\<lparr>th_queue := [], th_end := Some (SerialLost port_closed)\<rparr>"
  have "?step sample_threads s1"
    using send_serial [of sample_threads ?f "[?e]" sample_proto sample_aes]
    by (simp add: s1_def threads_init_def sample_serial_events)
  moreover have "?step s1 s2"
    using send_serial [of s1 ?e "[]" sample_proto sample_aes] by (simp add: s1_def s2_def threads_init_def)
  moreover have "?step s2 s3"
    using handle [of s2 ?f "[?e]" sample_proto sample_aes] f by (simp add: s1_def s2_def s3_def threads_init_def)
  moreover have "?step s3 s4"
    using leave [of s3 ?e "[]" sample_proto "SerialLost port_closed" sample_aes] e
    by (simp add: s1_def s2_def s3_def s4_def threads_init_def)
  ultimately have "(?step ^^ 4) sample_threads s4"
    by (auto simp: numeral_eq_Suc relcompp_apply)
  then show ?thesis by (auto simp: s4_def)
qed

lemma sample_run_reachable:
  "\<exists>s. (thread_step sample_proto sample_aes)\<^sup>*\<^sup>* sample_threads s \<and> th_end s = Some (SerialLost port_closed)"
  using sample_run by (meson rtranclp_power)

theorem threads_refine_loop_witness:
  "\<exists>evs b out. run_loop sample_proto sample_aes (sample_bridge Phone 9 0) HEARTBEAT_NONCE_NODEINFO_PING evs
       = (b, out, SerialLost port_closed) \<and>
     prefix (filter serial_event evs) (serial_reader FrameReader_new sample_serial_in)"
  using sample_run_reachable threads_refine_loop by blast

theorem lan_keeps_radio_order_witness:
  "\<exists>s :: threads. th_end s = Some (SerialLost port_closed) \<and> prefix (datagrams (th_out s))
     (concat (map (lan_output sample_proto sample_aes (sample_bridge Phone 9 0)) (serial_reader FrameReader_new sample_serial_in)))"
proof -
  obtain s where s: "(thread_step sample_proto sample_aes)\<^sup>*\<^sup>* sample_threads s" "th_end s = Some (SerialLost port_closed)"
    using sample_run_reachable by blast
  from lan_keeps_radio_order [OF s(1)] s(2) show ?thesis by blast
qed

theorem session_ends_witness:
  "\<exists>s. (thread_step sample_proto sample_aes ^^ 4) sample_threads s \<and>
     4 \<le> 2 * length (serial_reader FrameReader_new sample_serial_in) + 1"
proof -
  obtain s where s: "(thread_step sample_proto sample_aes ^^ 4) sample_threads s" using sample_run by blast
  with session_ends [OF s] show ?thesis by auto
qed

end
