(* ===== verification/Lifecycle.thy ===== *)
theory Lifecycle
  imports Threads
begin

text \<open>
  \<open>Bridge::run\<close> as it executes: each of its three threads tests the stop flag, blocks in its call, and sends what it
  makes of the result; the main thread dispatches until the session ends, then sets the flag, drops the
  receiver, joins the threads and returns.  Inputs arrive while the threads run: they are the labels of the
  steps.  Theory \<open>Threads\<close>, where a thread is the list of the events it is going to send, is the abstraction of this
  system up to the end of the session.
\<close>

section \<open>State\<close>

datatype worker = Serial_reader | Udp_reader | Heartbeat_timer

text \<open>
  A thread is at the test of its loop, in its blocking call, or sending: the events it still sends, and whether
  it returns after them.
\<close>

datatype thread_pc = At_test | Blocked | Sending "bridge_event list" bool | Returned

datatype main_pc = Dispatching | Stopping session_end | Dropping session_end | Joining session_end "worker list" | Done session_end

record running =
  rn_stop :: bool
  rn_receiver :: bool
  rn_queue :: "bridge_event list"
  rn_pc :: "worker \<Rightarrow> thread_pc"
  rn_reader :: frame_reader
  rn_next :: nat
  rn_bridge :: "bridge \<times> u32"
  rn_out :: "effect list"
  rn_main :: main_pc

definition running_init :: "bridge \<Rightarrow> nat \<Rightarrow> running" where
  "running_init b now =
     \<lparr>rn_stop = False, rn_receiver = True, rn_queue = [], rn_pc = (\<lambda>_. At_test), rn_reader = FrameReader_new,
      rn_next = now + HEARTBEAT_INTERVAL, rn_bridge = (b, HEARTBEAT_NONCE_NODEINFO_PING), rn_out = [], rn_main = Dispatching\<rparr>"

section \<open>The threads\<close>

text \<open>What a blocking call of each thread returns: the outcome of \<open>read\<close> or \<open>recv_from\<close>, the clock after the sleep.\<close>

datatype input = Serial_in read_outcome | Udp_in read_outcome | Timer_in nat

fun input_of :: "input \<Rightarrow> worker" where
  "input_of (Serial_in _) = Serial_reader"
| "input_of (Udp_in _) = Udp_reader"
| "input_of (Timer_in _) = Heartbeat_timer"

fun wake :: "input \<Rightarrow> running \<Rightarrow> running" where
  "wake (Serial_in outcome) s = (case outcome of
     Read_ok [] \<Rightarrow> s\<lparr>rn_pc := (rn_pc s)(Serial_reader :=
       Sending [SerialError (Io_error UnexpectedEof ''serial port closed'')] True)\<rparr>
   | Read_ok data \<Rightarrow>
       (case feed_bytes (rn_reader s) data of (reader', frames) \<Rightarrow>
          s\<lparr>rn_reader := reader', rn_pc := (rn_pc s)(Serial_reader := Sending (map SerialFrame frames) False)\<rparr>)
   | Read_err e \<Rightarrow>
       s\<lparr>rn_pc := (rn_pc s)(Serial_reader := if error_kind e = TimedOut then At_test else Sending [SerialError e] True)\<rparr>)"
| "wake (Udp_in outcome) s = s\<lparr>rn_pc := (rn_pc s)(Udp_reader := (case outcome of
     Read_ok data \<Rightarrow> Sending [UdpPacket (take 600 data)] False
   | Read_err e \<Rightarrow> if error_kind e = WouldBlock \<or> error_kind e = TimedOut then At_test else Sending [UdpError e] True))\<rparr>"
| "wake (Timer_in now) s =
     (if rn_next s \<le> now
      then s\<lparr>rn_next := rn_next s + HEARTBEAT_INTERVAL, rn_pc := (rn_pc s)(Heartbeat_timer := Sending [Tick] False)\<rparr>
      else s\<lparr>rn_pc := (rn_pc s)(Heartbeat_timer := At_test)\<rparr>)"

text \<open>A send fails when the receiver is gone; then the thread returns.\<close>

definition send_next :: "worker \<Rightarrow> bridge_event \<Rightarrow> bridge_event list \<Rightarrow> bool \<Rightarrow> running \<Rightarrow> running" where
  "send_next w ev evs final s =
     (if rn_receiver s
      then s\<lparr>rn_queue := rn_queue s @ [ev], rn_pc := (rn_pc s)(w := Sending evs final)\<rparr>
      else s\<lparr>rn_pc := (rn_pc s)(w := Returned)\<rparr>)"

section \<open>Steps\<close>

inductive run_step :: "'x proto \<Rightarrow> aes_crate \<Rightarrow> running \<Rightarrow> input option \<Rightarrow> running \<Rightarrow> bool" for P :: "'x proto" and A :: aes_crate where
  test: "rn_pc s w = At_test \<Longrightarrow>
    run_step P A s None (s\<lparr>rn_pc := (rn_pc s)(w := if rn_stop s then Returned else Blocked)\<rparr>)"
| wakes: "rn_pc s (input_of i) = Blocked \<Longrightarrow> run_step P A s (Some i) (wake i s)"
| send: "rn_pc s w = Sending (ev # evs) final \<Longrightarrow> run_step P A s None (send_next w ev evs final s)"
| sent: "rn_pc s w = Sending [] final \<Longrightarrow>
    run_step P A s None (s\<lparr>rn_pc := (rn_pc s)(w := if final then Returned else At_test)\<rparr>)"
| handle: "rn_main s = Dispatching \<Longrightarrow> rn_queue s = ev # evs \<Longrightarrow> ends P ev = None \<Longrightarrow>
    run_step P A s None (s\<lparr>rn_queue := evs, rn_bridge := fst (loop_step P A (rn_bridge s) ev),
                           rn_out := rn_out s @ snd (loop_step P A (rn_bridge s) ev)\<rparr>)"
| leave: "rn_main s = Dispatching \<Longrightarrow> rn_queue s = ev # evs \<Longrightarrow> ends P ev = Some r \<Longrightarrow>
    run_step P A s None (s\<lparr>rn_queue := evs, rn_main := Stopping r\<rparr>)"
| disconnected: "rn_main s = Dispatching \<Longrightarrow> rn_queue s = [] \<Longrightarrow> \<forall>w. rn_pc s w = Returned \<Longrightarrow>
    run_step P A s None (s\<lparr>rn_main := Stopping all_readers_gone\<rparr>)"
| set_stop: "rn_main s = Stopping r \<Longrightarrow> run_step P A s None (s\<lparr>rn_stop := True, rn_main := Dropping r\<rparr>)"
| drop_receiver: "rn_main s = Dropping r \<Longrightarrow>
    run_step P A s None (s\<lparr>rn_receiver := False, rn_queue := [],
                           rn_main := Joining r [Serial_reader, Udp_reader, Heartbeat_timer]\<rparr>)"
| join: "rn_main s = Joining r (w # ws) \<Longrightarrow> rn_pc s w = Returned \<Longrightarrow>
    run_step P A s None (s\<lparr>rn_main := Joining r ws\<rparr>)"
| finish: "rn_main s = Joining r [] \<Longrightarrow> run_step P A s None (s\<lparr>rn_main := Done r\<rparr>)"

inductive_cases run_stepE: "run_step P A s i s'"

text \<open>A run with the inputs it has taken.\<close>

inductive runs :: "'x proto \<Rightarrow> aes_crate \<Rightarrow> running \<Rightarrow> input option list \<Rightarrow> running \<Rightarrow> bool" for P :: "'x proto" and A :: aes_crate where
  stop_here: "runs P A s [] s"
| go_on: "run_step P A s i s' \<Longrightarrow> runs P A s' is s'' \<Longrightarrow> runs P A s (i # is) s''"

inductive_simps runs_Nil [simp]: "runs P A s [] s'"
inductive_simps runs_Cons: "runs P A s (i # is) s'"

lemma worker_forall: "(\<forall>w. Q w) \<longleftrightarrow> Q Serial_reader \<and> Q Udp_reader \<and> Q Heartbeat_timer"
  by (auto intro: worker.induct)

section \<open>What a step leaves alone\<close>

lemma wake_simps [simp]:
  "rn_stop (wake i s) = rn_stop s" "rn_receiver (wake i s) = rn_receiver s" "rn_queue (wake i s) = rn_queue s"
  "rn_main (wake i s) = rn_main s" "rn_bridge (wake i s) = rn_bridge s" "rn_out (wake i s) = rn_out s"
  by (cases i; simp split: read_outcome.split list.split prod.split)+

lemma wake_other [simp]: "w \<noteq> input_of i \<Longrightarrow> rn_pc (wake i s) w = rn_pc s w"
  by (cases i) (auto split: read_outcome.split list.split prod.split)

lemma wake_pc: "rn_pc (wake i s) (input_of i) = At_test \<or> (\<exists>evs final. rn_pc (wake i s) (input_of i) = Sending evs final)"
  by (cases i) (auto split: read_outcome.split list.split prod.split)

lemma send_next_simps [simp]:
  "rn_stop (send_next w ev evs f s) = rn_stop s" "rn_receiver (send_next w ev evs f s) = rn_receiver s"
  "rn_main (send_next w ev evs f s) = rn_main s" "rn_bridge (send_next w ev evs f s) = rn_bridge s"
  "rn_out (send_next w ev evs f s) = rn_out s" "rn_reader (send_next w ev evs f s) = rn_reader s"
  "rn_next (send_next w ev evs f s) = rn_next s"
  "rn_queue (send_next w ev evs f s) = (if rn_receiver s then rn_queue s @ [ev] else rn_queue s)"
  "rn_pc (send_next w ev evs f s) = (rn_pc s)(w := if rn_receiver s then Sending evs f else Returned)"
  by (simp_all add: send_next_def)

lemma returned_stays: "run_step P A s i s' \<Longrightarrow> rn_pc s w = Returned \<Longrightarrow> rn_pc s' w = Returned"
proof (erule run_stepE)
  fix j assume "rn_pc s w = Returned" "s' = wake j s" "rn_pc s (input_of j) = Blocked"
  then show ?thesis by (cases "w = input_of j") simp_all
qed auto

section \<open>Invariant of the shutdown\<close>

definition shutdown_inv :: "running \<Rightarrow> bool" where
  "shutdown_inv s \<longleftrightarrow> (case rn_main s of
     Dispatching \<Rightarrow> \<not> rn_stop s \<and> rn_receiver s
   | Stopping r \<Rightarrow> \<not> rn_stop s \<and> rn_receiver s
   | Dropping r \<Rightarrow> rn_stop s \<and> rn_receiver s
   | Joining r ws \<Rightarrow> rn_stop s \<and> \<not> rn_receiver s \<and> rn_queue s = [] \<and> length ws \<le> 3 \<and> (\<forall>w. w \<in> set ws \<or> rn_pc s w = Returned)
   | Done r \<Rightarrow> rn_stop s \<and> \<not> rn_receiver s \<and> rn_queue s = [] \<and> (\<forall>w. rn_pc s w = Returned))"

lemma shutdown_inv_init: "shutdown_inv (running_init b now)"
  by (simp add: shutdown_inv_def running_init_def)

lemma shutdown_inv_step:
  assumes "run_step P A s i s'" and "shutdown_inv s"
  shows "shutdown_inv s'"
  using assms(1)
proof cases
  case (join r w ws)
  with assms(2) show ?thesis by (auto simp: shutdown_inv_def)
next
  case (finish r)
  with assms(2) show ?thesis by (simp add: shutdown_inv_def)
next
  case (drop_receiver r)
  with assms(2) show ?thesis by (auto simp: shutdown_inv_def worker_forall)
qed (use assms returned_stays [OF assms(1)] in \<open>auto simp: shutdown_inv_def split: main_pc.splits\<close>)

lemma shutdown_inv_runs: "runs P A s is s' \<Longrightarrow> shutdown_inv s \<Longrightarrow> shutdown_inv s'"
  by (induction rule: runs.induct) (auto intro: shutdown_inv_step)

lemma shutdown_inv_reachable: "runs P A (running_init b now) is s \<Longrightarrow> shutdown_inv s"
  by (rule shutdown_inv_runs [OF _ shutdown_inv_init])

section \<open>The shutdown ends\<close>

text \<open>
  The steps a thread still takes when the flag is set and the receiver is gone: it comes out of its call, fails to send
  or has nothing to send, and tests the flag.
\<close>

fun steps_left :: "thread_pc \<Rightarrow> nat" where
  "steps_left Returned = 0"
| "steps_left At_test = 1"
| "steps_left (Sending evs final) = 2"
| "steps_left Blocked = 3"

definition shutdown_left :: "running \<Rightarrow> nat" where
  "shutdown_left s = steps_left (rn_pc s Serial_reader) + steps_left (rn_pc s Udp_reader) + steps_left (rn_pc s Heartbeat_timer) +
     (case rn_main s of Joining r ws \<Rightarrow> Suc (length ws) | _ \<Rightarrow> 0)"

lemma shutdown_left_update:
  assumes "steps_left pc < steps_left (rn_pc s w)"
  shows "shutdown_left (s\<lparr>rn_pc := (rn_pc s)(w := pc)\<rparr>) < shutdown_left s"
  using assms by (cases w) (simp_all add: shutdown_left_def)

lemma steps_left_bound: "steps_left pc \<le> 3"
  by (cases pc) simp_all

lemma shutdown_left_wake:
  assumes "rn_pc s (input_of i) = Blocked"
  shows "shutdown_left (wake i s) < shutdown_left s"
proof -
  have less: "steps_left (rn_pc (wake i s) (input_of i)) < steps_left (rn_pc s (input_of i))"
    using wake_pc [of i s] assms by auto
  show ?thesis
  proof (cases "input_of i")
    case Serial_reader
    with less wake_other [of Udp_reader i s] wake_other [of Heartbeat_timer i s] show ?thesis by (simp add: shutdown_left_def)
  next
    case Udp_reader
    with less wake_other [of Serial_reader i s] wake_other [of Heartbeat_timer i s] show ?thesis by (simp add: shutdown_left_def)
  next
    case Heartbeat_timer
    with less wake_other [of Serial_reader i s] wake_other [of Udp_reader i s] show ?thesis by (simp add: shutdown_left_def)
  qed
qed

lemma shutdown_decreases:
  assumes "run_step P A s i s'" and "shutdown_inv s" and "rn_main s = Joining r ws"
  shows "shutdown_left s' < shutdown_left s"
  using assms(1)
proof cases
  case (wakes j)
  then show ?thesis by (simp add: shutdown_left_wake)
next
  case (join r' w ws')
  then show ?thesis by (simp add: shutdown_left_def)
next
  case (finish r')
  then show ?thesis by (simp add: shutdown_left_def)
qed (use assms(2,3) in \<open>auto simp: shutdown_inv_def send_next_def intro!: shutdown_left_update\<close>)

lemma thread_can_go_on: "rn_pc s w \<noteq> Returned \<Longrightarrow> \<exists>i s'. run_step P A s i s'"
proof (cases "rn_pc s w")
  case Blocked
  obtain i where "input_of i = w"
    by (cases w) (use input_of.simps in blast)+
  with Blocked show ?thesis using wakes by blast
next
  case (Sending evs final)
  then show ?thesis by (cases evs) (blast intro: send sent)+
qed (blast intro: test)+

lemma never_stuck:
  assumes "shutdown_inv s" and "\<forall>r. rn_main s \<noteq> Done r"
  shows "\<exists>i s'. run_step P A s i s'"
proof (cases "\<forall>w. rn_pc s w = Returned")
  case all: True
  show ?thesis
  proof (cases "rn_main s")
    case Dispatching
    show ?thesis
    proof (cases "rn_queue s")
      case (Cons ev evs)
      with Dispatching show ?thesis by (cases "ends P ev") (blast intro: handle leave)+
    qed (use Dispatching all in \<open>blast intro: disconnected\<close>)
  next
    case (Joining r ws)
    with all show ?thesis by (cases ws) (blast intro: join finish)+
  qed (use assms(2) in \<open>blast intro: set_stop drop_receiver\<close>)+
qed (blast intro: thread_can_go_on)

lemma joining_goes_on:
  assumes "run_step P A s i s'" and "rn_main s = Joining r ws"
  shows "(\<exists>ws'. rn_main s' = Joining r ws') \<or> rn_main s' = Done r"
  using assms by (auto elim!: run_stepE)

lemma done_is_final: "shutdown_inv s \<Longrightarrow> rn_main s = Done r \<Longrightarrow> \<not> run_step P A s i s'"
  by (auto simp: shutdown_inv_def elim!: run_stepE)

lemma shutdown_bound:
  assumes "runs P A s is s'" and "shutdown_inv s" and "rn_main s = Joining r ws"
  shows "length is + shutdown_left s' \<le> shutdown_left s \<and> ((\<exists>ws'. rn_main s' = Joining r ws') \<or> rn_main s' = Done r)"
  using assms
proof (induction arbitrary: ws rule: runs.induct)
  case (go_on s i s1 "is" s2)
  have inv: "shutdown_inv s1" by (rule shutdown_inv_step [OF go_on.hyps(1) go_on.prems(1)])
  have less: "shutdown_left s1 < shutdown_left s" by (rule shutdown_decreases [OF go_on.hyps(1) go_on.prems])
  from joining_goes_on [OF go_on.hyps(1) go_on.prems(2)] show ?case
  proof (elim disjE exE)
    fix ws' assume "rn_main s1 = Joining r ws'"
    from go_on.IH [OF inv this] less show ?thesis by auto
  next
    assume finished: "rn_main s1 = Done r"
    from go_on.hyps(2) have "is = [] \<and> s2 = s1"
      using done_is_final [OF inv finished] by cases auto
    with less finished show ?thesis by simp
  qed
qed simp

section \<open>The list-of-events abstraction\<close>

definition serial_ins :: "input option list \<Rightarrow> (bool \<times> read_outcome) list" where
  "serial_ins is = List.map_filter (\<lambda>i. case i of Some (Serial_in r) \<Rightarrow> Some (False, r) | _ \<Rightarrow> None) is"

definition udp_ins :: "input option list \<Rightarrow> (bool \<times> read_outcome) list" where
  "udp_ins is = List.map_filter (\<lambda>i. case i of Some (Udp_in r) \<Rightarrow> Some (False, r) | _ \<Rightarrow> None) is"

definition timer_ins :: "input option list \<Rightarrow> (bool \<times> nat) list" where
  "timer_ins is = List.map_filter (\<lambda>i. case i of Some (Timer_in now) \<Rightarrow> Some (False, now) | _ \<Rightarrow> None) is"

lemma ins_simps [simp]:
  "serial_ins [] = []" "serial_ins (None # is) = serial_ins is" "serial_ins (Some (Serial_in r) # is) = (False, r) # serial_ins is"
  "serial_ins (Some (Udp_in r) # is) = serial_ins is" "serial_ins (Some (Timer_in now) # is) = serial_ins is"
  "udp_ins [] = []" "udp_ins (None # is) = udp_ins is" "udp_ins (Some (Serial_in r) # is) = udp_ins is"
  "udp_ins (Some (Udp_in r) # is) = (False, r) # udp_ins is" "udp_ins (Some (Timer_in now) # is) = udp_ins is"
  "timer_ins [] = []" "timer_ins (None # is) = timer_ins is" "timer_ins (Some (Serial_in r) # is) = timer_ins is"
  "timer_ins (Some (Udp_in r) # is) = timer_ins is" "timer_ins (Some (Timer_in now) # is) = (False, now) # timer_ins is"
  by (simp_all add: serial_ins_def udp_ins_def timer_ins_def map_filter_simps)

text \<open>A thread that is about to return takes no more inputs.\<close>

definition finishing :: "thread_pc \<Rightarrow> bool" where
  "finishing pc \<longleftrightarrow> pc = Returned \<or> (\<exists>evs. pc = Sending evs True)"

lemma finishing_simps [simp]:
  "finishing Returned" "\<not> finishing At_test" "\<not> finishing Blocked" "finishing (Sending evs final) \<longleftrightarrow> final"
  by (auto simp: finishing_def)

lemma finishing_step:
  assumes "run_step P A s i s'" and "finishing (rn_pc s w)"
  shows "finishing (rn_pc s' w) \<and> (\<forall>j. i = Some j \<longrightarrow> input_of j \<noteq> w)"
  using assms(1)
proof cases
  case (wakes j)
  with assms(2) have "input_of j \<noteq> w" by auto
  with wakes assms(2) show ?thesis by simp
qed (use assms(2) in auto)

lemma finishing_runs:
  "runs P A s is s' \<Longrightarrow> finishing (rn_pc s w) \<Longrightarrow> Some j \<in> set is \<Longrightarrow> input_of j \<noteq> w"
  by (induction rule: runs.induct) (auto dest: finishing_step)

lemma finishing_ins:
  assumes "runs P A s is s'"
  shows "finishing (rn_pc s Serial_reader) \<Longrightarrow> serial_ins is = []"
    and "finishing (rn_pc s Udp_reader) \<Longrightarrow> udp_ins is = []"
    and "finishing (rn_pc s Heartbeat_timer) \<Longrightarrow> timer_ins is = []"
proof -
  have none: "Some j \<notin> set is" if "finishing (rn_pc s (input_of j))" for j
    using finishing_runs [OF assms that] by blast
  show "finishing (rn_pc s Serial_reader) \<Longrightarrow> serial_ins is = []"
    and "finishing (rn_pc s Udp_reader) \<Longrightarrow> udp_ins is = []"
    and "finishing (rn_pc s Heartbeat_timer) \<Longrightarrow> timer_ins is = []"
    using none [of "Serial_in r" for r] none [of "Udp_in r" for r] none [of "Timer_in now" for now]
    by (auto simp: serial_ins_def udp_ins_def timer_ins_def map_filter_def filter_empty_conv
        split: option.splits input.splits)
qed

section \<open>Simulation\<close>

definition pending :: "thread_pc \<Rightarrow> bridge_event list" where
  "pending pc = (case pc of Sending evs _ \<Rightarrow> evs | _ \<Rightarrow> [])"

lemma pending_simps [simp]:
  "pending At_test = []" "pending Blocked = []" "pending Returned = []" "pending (Sending evs final) = evs"
  by (simp_all add: pending_def)

fun ended :: "main_pc \<Rightarrow> session_end option" where
  "ended Dispatching = None"
| "ended (Stopping r) = Some r"
| "ended (Dropping r) = Some r"
| "ended (Joining r ws) = Some r"
| "ended (Done r) = Some r"

text \<open>With the inputs still to come known, what each thread is going to send is determined.\<close>

definition follows :: "input option list \<Rightarrow> running \<Rightarrow> threads \<Rightarrow> bool" where
  "follows is s t \<longleftrightarrow> th_main t = rn_bridge s \<and> th_out t = rn_out s \<and> th_end t = ended (rn_main s) \<and>
     (rn_main s = Dispatching \<longrightarrow> th_queue t = rn_queue s \<and>
        th_serial t = pending (rn_pc s Serial_reader) @ serial_reader (rn_reader s) (serial_ins is) \<and>
        th_udp t = pending (rn_pc s Udp_reader) @ udp_reader (udp_ins is) \<and>
        th_timer t = pending (rn_pc s Heartbeat_timer) @ heartbeat_timer (rn_next s) (timer_ins is))"

lemma follows_init:
  "follows is (running_init b now) (threads_init b (serial_ins is) (udp_ins is) now (timer_ins is))"
  by (simp add: follows_def running_init_def threads_init_def)

text \<open>Once the session has ended, nothing the abstraction shows changes.\<close>

lemma follows_after_end:
  assumes "run_step P A s i s'" and "rn_main s \<noteq> Dispatching" and "follows (i # is) s t"
  shows "follows is s' t"
  using assms by (auto simp: follows_def elim!: run_stepE)

lemma follows_wake:
  assumes "rn_pc s (input_of j) = Blocked" and "follows (Some j # is) s t" and "rn_main s = Dispatching"
    and "runs P A (wake j s) is s''"
  shows "follows is (wake j s) t"
proof (cases j)
  case (Serial_in outcome)
  show ?thesis
  proof (cases outcome)
    case (Read_ok data)
    show ?thesis
    proof (cases data)
      case Nil
      with Serial_in Read_ok finishing_ins(1) [OF assms(4)] have "serial_ins is = []" by simp
      with Serial_in Read_ok Nil assms(1-3) show ?thesis by (simp add: follows_def)
    qed (use Serial_in Read_ok assms(1-3) in \<open>simp add: follows_def del: feed_bytes.simps split: prod.split\<close>)
  next
    case (Read_err e)
    with Serial_in finishing_ins(1) [OF assms(4)] have "error_kind e \<noteq> TimedOut \<Longrightarrow> serial_ins is = []" by simp
    with Serial_in Read_err assms(1-3) show ?thesis by (auto simp: follows_def)
  qed
next
  case (Udp_in outcome)
  show ?thesis
  proof (cases outcome)
    case (Read_err e)
    with Udp_in finishing_ins(2) [OF assms(4)]
    have "\<not> (error_kind e = WouldBlock \<or> error_kind e = TimedOut) \<Longrightarrow> udp_ins is = []" by simp
    with Udp_in Read_err assms(1-3) show ?thesis by (auto simp: follows_def)
  qed (use Udp_in assms(1-3) in \<open>simp add: follows_def\<close>)
next
  case (Timer_in now)
  with assms(1-3) show ?thesis by (simp add: follows_def)
qed

lemma follows_send:
  assumes "rn_pc s w = Sending (ev # evs) final" and "follows is s t" and "rn_main s = Dispatching" and "rn_receiver s"
  shows "\<exists>t'. thread_step P A t t' \<and> follows is (send_next w ev evs final s) t'"
proof (cases w)
  case Serial_reader
  with assms send_serial [of t ev "evs @ serial_reader (rn_reader s) (serial_ins is)" P A] show ?thesis
    by (intro exI conjI) (auto simp: follows_def)
next
  case Udp_reader
  with assms send_udp [of t ev "evs @ udp_reader (udp_ins is)" P A] show ?thesis
    by (intro exI conjI) (auto simp: follows_def)
next
  case Heartbeat_timer
  with assms send_tick [of t ev "evs @ heartbeat_timer (rn_next s) (timer_ins is)" P A] show ?thesis
    by (intro exI conjI) (auto simp: follows_def)
qed

lemma follows_step:
  assumes "run_step P A s i s'" and "shutdown_inv s" and "follows (i # is) s t" and "runs P A s' is s''"
  shows "\<exists>t'. (thread_step P A)\<^sup>*\<^sup>* t t' \<and> follows is s' t'"
proof (cases "rn_main s = Dispatching")
  case False
  with follows_after_end [OF assms(1) _ assms(3)] show ?thesis by blast
next
  case running: True
  with assms(2) have alive: "\<not> rn_stop s" "rn_receiver s" by (simp_all add: shutdown_inv_def)
  from assms(1) show ?thesis
  proof cases
    case (test w)
    then have "follows is s' t" using assms(3) running alive by (cases w) (simp_all add: follows_def)
    then show ?thesis by blast
  next
    case (wakes j)
    with follows_wake [of s j "is" t P A s''] assms(3,4) running show ?thesis by auto
  next
    case (send w ev evs final)
    with follows_send [OF send(3), of "is" t P A] assms(3) running alive show ?thesis
      by (auto simp: follows_def)
  next
    case (sent w final)
    then have "follows is s' t" using assms(3) running by (cases w) (simp_all add: follows_def)
    then show ?thesis by blast
  next
    case (handle ev evs)
    with assms(3) running thread_step.handle [of t ev evs P A] show ?thesis
      by (intro exI conjI, intro r_into_rtranclp) (auto simp: follows_def)
  next
    case (leave ev evs r)
    with assms(3) running thread_step.leave [of t ev evs P r A] show ?thesis
      by (intro exI conjI, intro r_into_rtranclp) (auto simp: follows_def)
  next
    case disconnected
    with finishing_ins [OF assms(4)] have "serial_ins is = []" "udp_ins is = []" "timer_ins is = []" by simp_all
    with disconnected assms(3) running thread_step.disconnected [of t P A] show ?thesis
      by (intro exI conjI, intro r_into_rtranclp) (auto simp: follows_def)
  qed (use running in simp_all)
qed

lemma follows_runs:
  assumes "runs P A s is s'" and "shutdown_inv s" and "follows is s t"
  shows "\<exists>t'. (thread_step P A)\<^sup>*\<^sup>* t t' \<and> follows [] s' t'"
  using assms
proof (induction arbitrary: t rule: runs.induct)
  case (go_on s i s1 "is" s2)
  obtain t1 where "(thread_step P A)\<^sup>*\<^sup>* t t1" "follows is s1 t1"
    using follows_step [OF go_on.hyps(1) go_on.prems go_on.hyps(2)] by blast
  with go_on.IH [OF shutdown_inv_step [OF go_on.hyps(1) go_on.prems(1)]] show ?case
    by (meson rtranclp_trans)
qed blast

lemma follows_reachable:
  assumes "runs P A (running_init b now) is s"
  shows "\<exists>t. (thread_step P A)\<^sup>*\<^sup>* (threads_init b (serial_ins is) (udp_ins is) now (timer_ins is)) t \<and>
    th_main t = rn_bridge s \<and> th_out t = rn_out s \<and> th_end t = ended (rn_main s)"
  using follows_runs [OF assms shutdown_inv_init follows_init] by (auto simp: follows_def)

section \<open>Where events come from\<close>

definition serial_stream :: "input option list \<Rightarrow> bytes" where
  "serial_stream is = concat (map (\<lambda>i. case i of Some (Serial_in (Read_ok data)) \<Rightarrow> data | _ \<Rightarrow> []) is)"

lemma serial_stream_simps [simp]:
  "serial_stream [] = []" "serial_stream (is @ js) = serial_stream is @ serial_stream js"
  "serial_stream [None] = []" "serial_stream [Some (Serial_in (Read_ok data))] = data" "serial_stream [Some (Serial_in (Read_err e))] = []"
  "serial_stream [Some (Udp_in r)] = []" "serial_stream [Some (Timer_in now)] = []"
  by (simp_all add: serial_stream_def)

fun caused :: "input option list \<Rightarrow> bridge_event \<Rightarrow> bool" where
  "caused past (SerialFrame p) \<longleftrightarrow> p \<in> set (snd (feed_bytes FrameReader_new (serial_stream past)))"
| "caused past (SerialError e) \<longleftrightarrow> (Some (Serial_in (Read_err e)) \<in> set past \<and> error_kind e \<noteq> TimedOut) \<or>
     (Some (Serial_in (Read_ok [])) \<in> set past \<and> e = Io_error UnexpectedEof ''serial port closed'')"
| "caused past (UdpPacket d) \<longleftrightarrow> (\<exists>data. Some (Udp_in (Read_ok data)) \<in> set past \<and> d = take 600 data)"
| "caused past (UdpError e) \<longleftrightarrow>
     Some (Udp_in (Read_err e)) \<in> set past \<and> error_kind e \<noteq> WouldBlock \<and> error_kind e \<noteq> TimedOut"
| "caused past Tick \<longleftrightarrow> True"

lemma caused_later: "caused past ev \<Longrightarrow> caused (past @ later) ev"
  by (cases ev) (auto simp: feed_bytes_append simp del: feed_bytes.simps split: prod.split)

definition end_caused :: "'x proto \<Rightarrow> input option list \<Rightarrow> session_end \<Rightarrow> bool" where
  "end_caused P past r \<longleftrightarrow> (\<exists>ev. caused past ev \<and> ends P ev = Some r)"

lemma end_caused_later: "end_caused P past r \<Longrightarrow> end_caused P (past @ later) r"
  using caused_later by (auto simp: end_caused_def)

definition cause_inv :: "'x proto \<Rightarrow> input option list \<Rightarrow> running \<Rightarrow> bool" where
  "cause_inv P past s \<longleftrightarrow> rn_reader s = fst (feed_bytes FrameReader_new (serial_stream past)) \<and>
     (\<forall>ev \<in> set (rn_queue s). caused past ev) \<and> (\<forall>w. \<forall>ev \<in> set (pending (rn_pc s w)). caused past ev) \<and>
     (rn_main s = Dispatching \<longrightarrow> \<not> finishing (rn_pc s Heartbeat_timer)) \<and>
     (\<forall>r. ended (rn_main s) = Some r \<longrightarrow> end_caused P past r)"

lemma cause_inv_init: "cause_inv P [] (running_init b now)"
  by (simp add: cause_inv_def running_init_def)

lemma cause_inv_later:
  assumes "cause_inv P past s" and "serial_stream later = []"
  shows "cause_inv P (past @ later) s"
  using assms caused_later end_caused_later unfolding cause_inv_def by (auto simp del: feed_bytes.simps)

lemma cause_inv_wake:
  assumes "cause_inv P past s" and "rn_pc s (input_of j) = Blocked"
  shows "cause_inv P (past @ [Some j]) (wake j s)"
proof -
  let ?past = "past @ [Some j]"
  note inv = assms(1) [unfolded cause_inv_def]
  have queue: "\<forall>ev \<in> set (rn_queue (wake j s)). caused ?past ev" using inv caused_later by auto
  have other: "w \<noteq> input_of j \<Longrightarrow> \<forall>ev \<in> set (pending (rn_pc (wake j s) w)). caused ?past ev" for w
    using inv caused_later by auto
  have ended: "\<forall>r. ended (rn_main (wake j s)) = Some r \<longrightarrow> end_caused P ?past r"
    using inv end_caused_later by auto
  have own: "(\<forall>ev \<in> set (pending (rn_pc (wake j s) (input_of j))). caused ?past ev) \<and>
      rn_reader (wake j s) = fst (feed_bytes FrameReader_new (serial_stream ?past))"
    using inv by (cases j) (auto simp: feed_bytes_append simp del: feed_bytes.simps(2) split: read_outcome.splits list.splits prod.splits)
  moreover have "rn_main s = Dispatching \<longrightarrow> \<not> finishing (rn_pc (wake j s) Heartbeat_timer)"
    using inv wake_other [of Heartbeat_timer j s] by (cases j) (simp_all del: wake.simps(1))
  ultimately show ?thesis
    unfolding cause_inv_def using queue other ended by (metis wake_simps(4))
qed

lemma cause_inv_step:
  assumes "run_step P A s i s'" and "cause_inv P past s" and "shutdown_inv s"
  shows "cause_inv P (past @ [i]) s'"
  using assms(1)
proof cases
  case (wakes j)
  with assms(2) show ?thesis by (simp add: cause_inv_wake)
next
  case (send w ev evs final)
  then have "\<forall>e \<in> set (ev # evs). caused past e"
    using assms(2) unfolding cause_inv_def by (metis pending_simps(4))
  with send cause_inv_later [OF assms(2), of "[None]"] assms(3) show ?thesis
    by (auto simp: cause_inv_def shutdown_inv_def caused_later split: main_pc.splits)
next
  case (leave ev evs r)
  then have "caused past ev" using assms(2) by (simp add: cause_inv_def)
  with leave cause_inv_later [OF assms(2), of "[None]"] show ?thesis
    by (auto simp: cause_inv_def end_caused_def intro: caused_later)
next
  case disconnected
  with assms(2) show ?thesis by (simp add: cause_inv_def)
qed (use cause_inv_later [OF assms(2), of "[None]"] assms(3) in \<open>auto simp: cause_inv_def shutdown_inv_def\<close>)

lemma cause_inv_runs:
  "runs P A s is s' \<Longrightarrow> cause_inv P past s \<Longrightarrow> shutdown_inv s \<Longrightarrow> cause_inv P (past @ is) s'"
proof (induction arbitrary: past rule: runs.induct)
  case (go_on s i s1 "is" s2)
  from go_on.IH [OF cause_inv_step [OF go_on.hyps(1) go_on.prems] shutdown_inv_step [OF go_on.hyps(1) go_on.prems(2)]]
  show ?case by simp
qed simp

section \<open>Frames and datagrams\<close>

text \<open>What the frames read so far lead to on the LAN, and what of it waits in the queue or in the reader's hands.\<close>

definition owed :: "'x proto \<Rightarrow> aes_crate \<Rightarrow> bridge \<Rightarrow> input option list \<Rightarrow> bytes list" where
  "owed P A b past = concat (map (lan_form P A b) (snd (feed_bytes FrameReader_new (serial_stream past))))"

definition waiting :: "'x proto \<Rightarrow> aes_crate \<Rightarrow> bridge \<Rightarrow> running \<Rightarrow> bytes list" where
  "waiting P A b s = concat (map (\<lambda>ev. case ev of SerialFrame payload \<Rightarrow> lan_form P A b payload | _ \<Rightarrow> [])
     (rn_queue s @ pending (rn_pc s Serial_reader)))"

definition order_inv :: "'x proto \<Rightarrow> aes_crate \<Rightarrow> bridge \<Rightarrow> input option list \<Rightarrow> running \<Rightarrow> bool" where
  "order_inv P A b past s \<longleftrightarrow> (\<exists>r. fst (rn_bridge s) = b\<lparr>br_recent := r\<rparr>) \<and>
     rn_reader s = fst (feed_bytes FrameReader_new (serial_stream past)) \<and>
     list_all serial_event (pending (rn_pc s Serial_reader)) \<and>
     (\<forall>w. w \<noteq> Serial_reader \<longrightarrow> (\<forall>ev \<in> set (pending (rn_pc s w)). \<not> serial_event ev)) \<and>
     prefix (datagrams (rn_out s)) (owed P A b past) \<and>
     (rn_main s = Dispatching \<longrightarrow> datagrams (rn_out s) @ waiting P A b s = owed P A b past)"

lemma loop_step_lan:
  assumes "fst s = b\<lparr>br_recent := r\<rparr>"
  shows "datagrams (snd (loop_step P A s ev)) = (case ev of SerialFrame payload \<Rightarrow> lan_form P A b payload | _ \<Rightarrow> [])"
proof (cases ev)
  case (SerialFrame payload)
  with assms loop_step_serial [of ev P A s] show ?thesis by (simp add: lan_output_def serial_datagrams)
next
  case (SerialError e)
  with loop_step_serial [of ev P A s] show ?thesis by (simp add: lan_output_def bridge_step_def)
qed (use lan_output_other [of ev P A s] in simp_all)

lemma order_inv_init: "order_inv P A b [] (running_init b now)"
  by (simp add: order_inv_def running_init_def owed_def waiting_def) (rule exI [of _ "br_recent b"], simp)

lemma owed_later: "serial_stream later = [] \<Longrightarrow> owed P A b (past @ later) = owed P A b past"
  by (simp add: owed_def)

lemma owed_data:
  "owed P A b (past @ [Some (Serial_in (Read_ok data))]) = owed P A b past @
     concat (map (lan_form P A b) (snd (feed_bytes (fst (feed_bytes FrameReader_new (serial_stream past))) data)))"
  by (simp add: owed_def feed_bytes_append split: prod.split)

lemma order_inv_wake:
  assumes "order_inv P A b past s" and "rn_pc s (input_of j) = Blocked"
  shows "order_inv P A b (past @ [Some j]) (wake j s)"
proof (cases j)
  case (Serial_in outcome)
  have idle: "pending (rn_pc s Serial_reader) = []" using assms(2) Serial_in by simp
  show ?thesis
  proof (cases outcome)
    case (Read_ok data)
    obtain reader frames where f: "feed_bytes (rn_reader s) data = (reader, frames)" by fastforce
    have owed: "owed P A b (past @ [Some j]) = owed P A b past @ concat (map (lan_form P A b) frames)"
      using assms(1) f by (simp add: Serial_in Read_ok owed_data order_inv_def)
    have reader: "fst (feed_bytes FrameReader_new (serial_stream (past @ [Some j]))) = reader"
      using assms(1) f by (auto simp: Serial_in Read_ok feed_bytes_append order_inv_def split: prod.split)
    show ?thesis
    proof (cases data)
      case Nil
      with f have "frames = []" "reader = rn_reader s" by simp_all
      with owed reader idle assms(1) show ?thesis by (simp add: order_inv_def waiting_def Serial_in Read_ok Nil)
    next
      case (Cons x xs)
      have wake: "wake j s = s\<lparr>rn_reader := reader, rn_pc := (rn_pc s)(Serial_reader := Sending (map SerialFrame frames) False)\<rparr>"
        using f by (simp add: Serial_in Read_ok Cons del: feed_bytes.simps)
      have "list_all serial_event (map SerialFrame frames)" by (simp add: list_all_iff)
      with wake owed reader idle assms(1) show ?thesis
        by (auto simp: order_inv_def waiting_def comp_def simp del: wake.simps)
    qed
  next
    case (Read_err e)
    with assms(1) idle show ?thesis by (simp add: order_inv_def waiting_def Serial_in owed_later)
  qed
next
  case (Udp_in outcome)
  with assms(1) show ?thesis
    by (cases outcome) (simp_all add: order_inv_def waiting_def owed_later)
next
  case (Timer_in now)
  with assms(1) show ?thesis by (simp add: order_inv_def waiting_def owed_later)
qed

lemma order_inv_send:
  assumes "order_inv P A b past s" and "rn_pc s w = Sending (ev # evs) final" and "rn_receiver s"
  shows "order_inv P A b past (send_next w ev evs final s)"
proof (cases "w = Serial_reader")
  case True
  with assms show ?thesis by (auto simp: order_inv_def waiting_def)
next
  case False
  with assms have "\<forall>e \<in> set (ev # evs). \<not> serial_event e" unfolding order_inv_def by (metis pending_simps(4))
  moreover from this have "(case ev of SerialFrame payload \<Rightarrow> lan_form P A b payload | _ \<Rightarrow> []) = []" by (cases ev) simp_all
  ultimately show ?thesis using False assms by (auto simp: order_inv_def waiting_def)
qed

lemma order_inv_handle:
  assumes "order_inv P A b past s" and "rn_queue s = ev # evs" and "rn_main s = Dispatching"
  shows "order_inv P A b past (s\<lparr>rn_queue := evs, rn_bridge := fst (loop_step P A (rn_bridge s) ev),
    rn_out := rn_out s @ snd (loop_step P A (rn_bridge s) ev)\<rparr>)"
proof -
  obtain r where r: "fst (rn_bridge s) = b\<lparr>br_recent := r\<rparr>" using assms(1) by (auto simp: order_inv_def)
  obtain r' where r': "fst (fst (loop_step P A (rn_bridge s) ev)) = b\<lparr>br_recent := r'\<rparr>"
    using loop_step_bridge [of P A "rn_bridge s" ev] r by auto
  note out = loop_step_lan [OF r, of P A ev]
  have all: "datagrams (rn_out s) @ waiting P A b s = owed P A b past" using assms(1,3) by (simp add: order_inv_def)
  moreover have "waiting P A b s = (case ev of SerialFrame payload \<Rightarrow> lan_form P A b payload | _ \<Rightarrow> []) @
      waiting P A b (s\<lparr>rn_queue := evs\<rparr>)"
    using assms(2) by (simp add: waiting_def)
  ultimately have split: "datagrams (rn_out s @ snd (loop_step P A (rn_bridge s) ev)) @ waiting P A b (s\<lparr>rn_queue := evs\<rparr>) = owed P A b past"
    using out by simp
  have "prefix (datagrams (rn_out s @ snd (loop_step P A (rn_bridge s) ev))) (owed P A b past)"
    by (rule prefixI [OF split [symmetric]])
  with assms(1) r' split show ?thesis by (auto simp: order_inv_def waiting_def)
qed

lemma order_inv_later: "order_inv P A b past s \<Longrightarrow> serial_stream later = [] \<Longrightarrow> order_inv P A b (past @ later) s"
  by (simp add: order_inv_def owed_later)

lemma order_inv_stopped:
  assumes "order_inv P A b past s" and "rn_main s' \<noteq> Dispatching"
    and "rn_bridge s' = rn_bridge s" "rn_reader s' = rn_reader s" "rn_out s' = rn_out s"
    and "\<And>w. set (pending (rn_pc s' w)) \<subseteq> set (pending (rn_pc s w))"
  shows "order_inv P A b past s'"
proof -
  have "\<forall>ev \<in> set (pending (rn_pc s' Serial_reader)). serial_event ev"
    using assms(1) assms(6) [of Serial_reader] by (auto simp: order_inv_def list_all_iff)
  moreover have "\<forall>w. w \<noteq> Serial_reader \<longrightarrow> (\<forall>ev \<in> set (pending (rn_pc s' w)). \<not> serial_event ev)"
    using assms(1,6) unfolding order_inv_def by blast
  ultimately show ?thesis using assms(1-5) by (simp add: order_inv_def list_all_iff)
qed

lemma order_inv_step:
  assumes "run_step P A s i s'" and "order_inv P A b past s" and "shutdown_inv s"
  shows "order_inv P A b (past @ [i]) s'"
  using assms(1)
proof cases
  case (wakes j)
  with assms(2) show ?thesis by (simp add: order_inv_wake)
next
  case (send w ev evs final)
  have "order_inv P A b past s'"
  proof (cases "rn_receiver s")
    case True
    with send assms(2) show ?thesis by (simp add: order_inv_send)
  next
    case False
    then have "rn_main s \<noteq> Dispatching" using assms(3) by (auto simp: shutdown_inv_def)
    with False send show ?thesis by (intro order_inv_stopped [OF assms(2)]) auto
  qed
  with send show ?thesis by (simp add: order_inv_later)
next
  case (handle ev evs)
  with order_inv_handle [OF assms(2) handle(4,3)] show ?thesis by (simp add: order_inv_later)
next
  case (test w)
  then show ?thesis
    using order_inv_later [OF assms(2), of "[None]"] by (auto simp: order_inv_def waiting_def)
next
  case (sent w final)
  then show ?thesis
    using order_inv_later [OF assms(2), of "[None]"] by (auto simp: order_inv_def waiting_def)
qed (use order_inv_later [OF assms(2), of "[None]"] in \<open>simp_all add: order_inv_def\<close>)

lemma order_inv_runs:
  "runs P A s is s' \<Longrightarrow> order_inv P A b past s \<Longrightarrow> shutdown_inv s \<Longrightarrow> order_inv P A b (past @ is) s'"
proof (induction arbitrary: past rule: runs.induct)
  case (go_on s i s1 "is" s2)
  from go_on.IH [OF order_inv_step [OF go_on.hyps(1) go_on.prems] shutdown_inv_step [OF go_on.hyps(1) go_on.prems(2)]]
  show ?case by simp
qed simp

section \<open>Properties\<close>

text \<open>C6: the execution of \<open>Bridge::run\<close>, with its stop flag, its sends that may fail and inputs that arrive while it
  runs, is at every moment an interleaving of the three lists of events that its inputs determine: with those
  inputs given in advance, the abstract threads reach a state with the same bridge, effects and end.\<close>

theorem run_refines_threads:
  assumes "runs P A (running_init b now) is s"
  shows "\<exists>t. (thread_step P A)\<^sup>*\<^sup>* (threads_init b (serial_ins is) (udp_ins is) now (timer_ins is)) t \<and>
    th_main t = rn_bridge s \<and> th_out t = rn_out s \<and> th_end t = ended (rn_main s)"
  by (rule follows_reachable [OF assms])

text \<open>C19: a session of \<open>Bridge::run\<close> that has ended did what the sequential dispatch loop does on some sequence of events,
  with the same bridge, effects and end; in it the events of each thread occur in the order of that thread's inputs, however
  the threads were scheduled and whenever the inputs arrived.\<close>

theorem run_refines_loop:
  assumes "runs P A (running_init b now) is s" and "ended (rn_main s) = Some r"
  shows "\<exists>evs. run_loop P A b HEARTBEAT_NONCE_NODEINFO_PING evs = (fst (rn_bridge s), rn_out s, r) \<and>
    prefix (filter serial_event evs) (serial_reader FrameReader_new (serial_ins is)) \<and>
    prefix (filter udp_event evs) (udp_reader (udp_ins is)) \<and>
    prefix (filter (\<lambda>ev. ev = Tick) evs) (heartbeat_timer (now + HEARTBEAT_INTERVAL) (timer_ins is))"
proof -
  obtain t where t: "(thread_step P A)\<^sup>*\<^sup>* (threads_init b (serial_ins is) (udp_ins is) now (timer_ins is)) t"
      "th_main t = rn_bridge s" "th_out t = rn_out s" "th_end t = ended (rn_main s)"
    using follows_reachable [OF assms(1)] by blast
  have "th_end t = Some r" using t(4) assms(2) by simp
  from threads_refine_loop [OF t(1) this] show ?thesis by (simp only: t(2,3))
qed

text \<open>C5: at every moment of a session, what the frames in the bytes read from the serial port lead to on the LAN, taken one
  by one, has either been sent, in that order, or waits in the queue or in the reader thread: no scheduling of the
  threads and nothing that arrives from the LAN in between drops, reorders, alters or adds a datagram.  After the session's
  end what had been sent is still an initial part.  Each frame counts: the memory of recent packets is not asked in this
  direction, so a packet the radio reports twice, or reports without the mark of the LAN though it came from there, is
  sent each time.\<close>

theorem run_keeps_radio_order:
  assumes "runs P A (running_init b now) is s"
  shows "prefix (datagrams (rn_out s)) (owed P A b is) \<and>
    (rn_main s = Dispatching \<longrightarrow> datagrams (rn_out s) @ waiting P A b s = owed P A b is)"
  using order_inv_runs [OF assms order_inv_init shutdown_inv_init] by (simp add: order_inv_def)

text \<open>C17: when the session has ended, \<open>Bridge::run\<close> returns: it is never stuck, once the receiver is dropped every
  thread needs at most three more steps and the main thread four, whatever their order and whatever still
  arrives, and when it has returned no thread is left that could read the serial port, which it hands back.\<close>

theorem run_returns:
  assumes "runs P A (running_init b now) is s" and "ended (rn_main s) = Some r"
  shows "(rn_main s = Done r \<or> (\<exists>i s'. run_step P A s i s')) \<and>
    (\<forall>ws js s'. rn_main s = Joining r ws \<and> runs P A s js s' \<longrightarrow> length js \<le> 13) \<and>
    (rn_main s = Done r \<longrightarrow> (\<forall>w. rn_pc s w = Returned) \<and> (\<nexists>i s'. run_step P A s i s'))"
proof (intro conjI allI impI)
  have inv: "shutdown_inv s" by (rule shutdown_inv_reachable [OF assms(1)])
  show "rn_main s = Done r \<or> (\<exists>i s'. run_step P A s i s')"
    using never_stuck [OF inv] assms(2) by (cases "rn_main s") auto
  show "length js \<le> 13" if "rn_main s = Joining r ws \<and> runs P A s js s'" for ws js s'
  proof -
    have "length ws \<le> 3" using inv that by (simp add: shutdown_inv_def)
    with that have "shutdown_left s \<le> 13"
      using steps_left_bound [of "rn_pc s Serial_reader"] steps_left_bound [of "rn_pc s Udp_reader"]
        steps_left_bound [of "rn_pc s Heartbeat_timer"] by (simp add: shutdown_left_def)
    with shutdown_bound [of P A s js s' r ws] inv that show ?thesis by simp
  qed
  assume "rn_main s = Done r"
  with inv show "rn_pc s w = Returned" for w by (simp add: shutdown_inv_def)
  show "\<nexists>i s'. run_step P A s i s'" using done_is_final [OF inv \<open>rn_main s = Done r\<close>] by blast
qed

text \<open>C20: a session ends only for a reason that lies in its inputs: a reboot notice among the frames of the bytes read
  so far, an error or the end of the stream on the serial port, or an error of the socket, where timeouts are no errors.
  The code's further case, that every thread has exited, does not occur.\<close>

theorem session_end_has_cause:
  assumes "runs P A (running_init b now) is s" and "ended (rn_main s) = Some r"
  shows "case r of
      RadioRebooted \<Rightarrow> \<exists>payload \<in> set (snd (feed_bytes FrameReader_new (serial_stream is))). decode_frame P payload = Rebooted
    | SerialLost e \<Rightarrow> caused is (SerialError e)
    | UdpFailed e \<Rightarrow> caused is (UdpError e)"
proof -
  have "cause_inv P is s"
    using cause_inv_runs [OF assms(1) cause_inv_init shutdown_inv_init] by simp
  then obtain ev where "caused is ev" "ends P ev = Some r"
    using assms(2) by (auto simp: cause_inv_def end_caused_def)
  then show ?thesis by (cases ev) (auto simp: ends_def split: radio_frame.splits)
qed

section \<open>Examples\<close>

text \<open>The serial port is closed: the reader reports it and returns, the main thread stops and joins the others.\<close>

definition closing_inputs :: "input option list" where
  "closing_inputs = [None, Some (Serial_in (Read_ok [])), None, None, None, None, None]"

definition sample_joining :: running where
  "sample_joining =
     \<lparr>rn_stop = True, rn_receiver = False, rn_queue = [], rn_pc = (\<lambda>_. At_test)(Serial_reader := Returned),
      rn_reader = FrameReader_new, rn_next = HEARTBEAT_INTERVAL,
      rn_bridge = (sample_bridge Phone 9 0, HEARTBEAT_NONCE_NODEINFO_PING), rn_out = [],
      rn_main = Joining (SerialLost port_closed) [Serial_reader, Udp_reader, Heartbeat_timer]\<rparr>"

lemma sample_closes: "runs sample_proto sample_aes (running_init (sample_bridge Phone 9 0) 0) closing_inputs sample_joining"
  unfolding running_init_def closing_inputs_def sample_joining_def
  apply (rule go_on, rule test [where w = Serial_reader], simp, simp)
  apply (rule go_on, rule wakes, simp, simp)
  apply (rule go_on, rule send [where w = Serial_reader], simp, simp add: send_next_def)
  apply (rule go_on, rule sent [where w = Serial_reader], simp, simp)
  apply (rule go_on, rule leave, simp, simp, simp add: ends_def, simp)
  apply (rule go_on, rule set_stop, simp, simp)
  apply (rule go_on, rule drop_receiver, simp, simp)
  done

lemma sample_joins:
  "\<exists>s. runs sample_proto sample_aes sample_joining [None, None, None, None, None, None] s \<and> rn_main s = Done (SerialLost port_closed)"
  unfolding sample_joining_def
  apply (rule exI, rule conjI)
   apply (rule go_on, rule test [where w = Udp_reader], simp, simp)
   apply (rule go_on, rule test [where w = Heartbeat_timer], simp, simp)
   apply (rule go_on, rule join, simp, simp, simp)
   apply (rule go_on, rule join, simp, simp, simp)
   apply (rule go_on, rule join, simp, simp, simp)
   apply (rule go_on, rule finish, simp, simp)
  apply simp
  done

lemma sample_joining_end: "ended (rn_main sample_joining) = Some (SerialLost port_closed)"
  by (simp add: sample_joining_def)

theorem run_refines_threads_witness:
  "\<exists>t. (thread_step sample_proto sample_aes)\<^sup>*\<^sup>* (threads_init (sample_bridge Phone 9 0) [(False, Read_ok [])] [] 0 []) t \<and>
    th_end t = Some (SerialLost port_closed)"
  using run_refines_threads [OF sample_closes] by (auto simp: closing_inputs_def sample_joining_end)

theorem run_refines_loop_witness:
  "\<exists>evs b out. run_loop sample_proto sample_aes (sample_bridge Phone 9 0) HEARTBEAT_NONCE_NODEINFO_PING evs = (b, out, SerialLost port_closed) \<and>
    prefix (filter serial_event evs) (serial_reader FrameReader_new (serial_ins closing_inputs))"
  using run_refines_loop [OF sample_closes sample_joining_end] by blast

text \<open>Two frames arrive in one read: the first has been sent, the second is still in the reader's hands.\<close>

definition hello_payload :: "u8 \<Rightarrow> bytes" where
  "hello_payload i = [4, 17, 255, i, 0, 0, 1, 104, 105]"

definition two_frames :: "input option list" where
  "two_frames = [None, Some (Serial_in (Read_ok (frame_payload (hello_payload 42) @ frame_payload (hello_payload 43)))), None, None]"

definition sample_sending :: running where
  "sample_sending =
     (let (main, effs) = loop_step sample_proto sample_aes (sample_bridge Phone 9 0, HEARTBEAT_NONCE_NODEINFO_PING)
            (SerialFrame (hello_payload 42))
      in (running_init (sample_bridge Phone 9 0) 0)\<lparr>rn_pc := (\<lambda>_. At_test)(Serial_reader := Sending [SerialFrame (hello_payload 43)] False),
           rn_bridge := main, rn_out := effs\<rparr>)"

lemma two_frames_read: "feed_bytes FrameReader_new (frame_payload (hello_payload 42) @ frame_payload (hello_payload 43)) =
    (FrameReader_new, [hello_payload 42, hello_payload 43])"
  using serial_link.batch_arrives [of "[hello_payload 42, hello_payload 43]"] by (simp add: hello_payload_def MAX_PACKET_SIZE_def)

lemma sample_sends: "runs sample_proto sample_aes (running_init (sample_bridge Phone 9 0) 0) two_frames sample_sending"
proof -
  let ?s0 = "running_init (sample_bridge Phone 9 0) 0"
  let ?s1 = "?s0\<lparr>rn_pc := (rn_pc ?s0)(Serial_reader := Blocked)\<rparr>"
  let ?frames = "[SerialFrame (hello_payload 42), SerialFrame (hello_payload 43)]"
  let ?s2 = "?s1\<lparr>rn_pc := (rn_pc ?s1)(Serial_reader := Sending ?frames False)\<rparr>"
  let ?s3 = "send_next Serial_reader (SerialFrame (hello_payload 42)) [SerialFrame (hello_payload 43)] False ?s2"
  obtain x xs where data: "frame_payload (hello_payload 42) @ frame_payload (hello_payload 43) = x # xs"
    by (simp add: frame_payload_shape)
  have "wake (Serial_in (Read_ok (frame_payload (hello_payload 42) @ frame_payload (hello_payload 43)))) ?s1 = ?s2"
    using two_frames_read unfolding data by (simp add: running_init_def del: feed_bytes.simps)
  then have 2: "run_step sample_proto sample_aes ?s1
      (Some (Serial_in (Read_ok (frame_payload (hello_payload 42) @ frame_payload (hello_payload 43))))) ?s2"
    using wakes [of ?s1 "Serial_in (Read_ok (frame_payload (hello_payload 42) @ frame_payload (hello_payload 43)))"] by simp
  have 1: "run_step sample_proto sample_aes ?s0 None ?s1"
    using test [of ?s0 Serial_reader sample_proto sample_aes] by (simp add: running_init_def)
  have 3: "run_step sample_proto sample_aes ?s2 None ?s3"
    by (rule send) simp
  have "decode_frame sample_proto (hello_payload 42) = Packet hello"
    by (simp add: decode_frame_def hello_def hello_payload_def)
  then have 4: "run_step sample_proto sample_aes ?s3 None sample_sending"
    using handle [of ?s3 "SerialFrame (hello_payload 42)" "[]" sample_proto sample_aes]
    by (simp add: running_init_def ends_def sample_sending_def send_next_def case_prod_beta)
  show ?thesis unfolding two_frames_def by (rule go_on [OF 1 go_on [OF 2 go_on [OF 3 go_on [OF 4 stop_here]]]])
qed

theorem run_keeps_radio_order_witness:
  "\<exists>d d'. datagrams (rn_out sample_sending) = [d] \<and> waiting sample_proto sample_aes (sample_bridge Phone 9 0) sample_sending = [d'] \<and>
     owed sample_proto sample_aes (sample_bridge Phone 9 0) two_frames = [d, d']"
proof -
  have main: "rn_main sample_sending = Dispatching"
    by (simp add: sample_sending_def running_init_def split: prod.split)
  have sent: "\<exists>d. lan_form sample_proto sample_aes (sample_bridge Phone 9 0) (hello_payload i) = [d]" for i
    by (simp add: lan_form_def decode_frame_def hello_payload_def)
  have "datagrams (rn_out sample_sending) = lan_form sample_proto sample_aes (sample_bridge Phone 9 0) (hello_payload 42)"
    by (simp add: sample_sending_def loop_step_def serial_datagrams [symmetric] split: prod.split)
  moreover have "waiting sample_proto sample_aes (sample_bridge Phone 9 0) sample_sending =
      lan_form sample_proto sample_aes (sample_bridge Phone 9 0) (hello_payload 43)"
    by (simp add: sample_sending_def running_init_def waiting_def split: prod.split)
  ultimately show ?thesis
    using run_keeps_radio_order [OF sample_sends] main sent [of 42] sent [of 43] by auto
qed

theorem run_returns_witness:
  "(\<exists>i s'. run_step sample_proto sample_aes sample_joining i s') \<and>
   (\<exists>js s'. runs sample_proto sample_aes sample_joining js s' \<and> rn_main s' = Done (SerialLost port_closed) \<and> length js \<le> 13)"
  using run_returns [OF sample_closes sample_joining_end] sample_joins by (simp add: sample_joining_def) blast

theorem session_end_has_cause_witness: "caused closing_inputs (SerialError port_closed)"
  using session_end_has_cause [OF sample_closes sample_joining_end] by simp

end
