(* ===== verification/Wire.thy ===== *)
theory Wire
  imports Radio Udp "HOL-Library.Monad_Syntax"
begin

text \<open>
  A concrete instance of the generated codecs at full width, on which the unit tests of the sources run.  It is
  a fixed-layout format, not protobuf, and covers the messages that cross the bridge and take part in a handshake;
  the fields the sources do not name are the two hop counters of a packet.  Its decoders undo its encoders, and as
  in protobuf the empty byte string is the message of default fields.
\<close>

section \<open>Words and strings\<close>

definition le_word :: "u8 \<Rightarrow> u8 \<Rightarrow> u8 \<Rightarrow> u8 \<Rightarrow> u32" where
  "le_word a b c d = ucast a OR push_bit 8 (ucast b) OR push_bit 16 (ucast c) OR push_bit 24 (ucast d)"

lemma le_word_bytes: "le_word (ucast w) (ucast (drop_bit 8 w)) (ucast (drop_bit 16 w)) (ucast (drop_bit 24 w)) = w"
proof (rule bit_word_eqI)
  fix n
  assume "n < LENGTH(32)"
  then have "n < 8 \<or> (8 \<le> n \<and> n < 16) \<or> (16 \<le> n \<and> n < 24) \<or> (24 \<le> n \<and> n < 32)" by auto
  then show "bit (le_word (ucast w) (ucast (drop_bit 8 w)) (ucast (drop_bit 16 w)) (ucast (drop_bit 24 w))) n = bit w n"
    by (auto simp: le_word_def bit_or_iff bit_push_bit_iff bit_ucast_iff bit_drop_bit_eq)
qed

fun get32 :: "bytes \<Rightarrow> (u32 \<times> bytes) option" where
  "get32 (a # b # c # d # s) = Some (le_word a b c d, s)"
| "get32 _ = None"

lemma get32_put [simp]: "get32 (to_le_bytes w @ s) = Some (w, s)"
  by (simp add: to_le_bytes_def le_word_bytes)

lemma to_le_bytes_neq_Nil [simp]: "to_le_bytes w \<noteq> []"
  by (simp add: to_le_bytes_def)

lemma length_to_le_bytes [simp]: "length (to_le_bytes w) = 4"
  by (simp add: to_le_bytes_def)

definition put_flag :: "bool \<Rightarrow> u8" where
  "put_flag b = (if b then 1 else 0)"

lemma put_flag_eq [simp]: "put_flag b = 1 \<longleftrightarrow> b" "put_flag b \<noteq> 0 \<longleftrightarrow> b"
  by (simp_all add: put_flag_def)

definition from_bytes :: "bytes \<Rightarrow> string" where
  "from_bytes bs = map (\<lambda>b. char_of (unat b)) bs"

lemma from_as_bytes [simp]: "from_bytes (as_bytes s) = s"
proof -
  have "unat (of_char c :: u8) = of_char c" for c
  proof -
    have "unat (of_char c :: u8) = unat (of_nat (of_char c) :: u8)" by (simp only: of_nat_of_char)
    then show ?thesis by (simp only: unat_of_nat) simp
  qed
  then show ?thesis by (simp add: from_bytes_def as_bytes_def comp_def)
qed

section \<open>Mesh packets\<close>

type_synonym hops = "u32 \<times> u32"

definition put_hops :: "hops \<Rightarrow> bytes" where
  "put_hops h = to_le_bytes (fst h) @ to_le_bytes (snd h)"

definition get_hops :: "bytes \<Rightarrow> (hops \<times> bytes) option" where
  "get_hops bs = do { (limit, bs) \<leftarrow> get32 bs; (start, bs) \<leftarrow> get32 bs; Some ((limit, start), bs) }"

lemma get_hops_put [simp]: "get_hops (put_hops h @ bs) = Some (h, bs)"
  by (simp add: get_hops_def put_hops_def)

definition wire_data :: "hops data_msg \<Rightarrow> bytes" where
  "wire_data d = to_le_bytes (d_portnum d) @ put_hops (d_rest d) @ put_flag (d_want_response d) # d_payload d"

definition unwire_data :: "bytes \<Rightarrow> hops data_msg option" where
  "unwire_data bs = do {
     (portnum, bs) \<leftarrow> get32 bs;
     (rest, bs) \<leftarrow> get_hops bs;
     case bs of
       [] \<Rightarrow> None
     | flag # payload \<Rightarrow>
         Some \<lparr>d_portnum = portnum, d_payload = payload, d_want_response = (flag = 1), d_rest = rest\<rparr> }"

lemma unwire_data [simp]: "unwire_data (wire_data d) = Some d"
  by (simp add: unwire_data_def wire_data_def)

definition wire_mesh :: "hops mesh_packet \<Rightarrow> bytes" where
  "wire_mesh p = to_le_bytes (mp_from p) @ to_le_bytes (mp_to p) @ to_le_bytes (mp_channel p) @ to_le_bytes (mp_id p) @
     to_le_bytes (mp_transport_mechanism p) @ put_hops (mp_rest p) @ put_flag (mp_pki_encrypted p) #
     (case mp_payload_variant p of
        None \<Rightarrow> [0]
      | Some (Decoded d) \<Rightarrow> 1 # wire_data d
      | Some (Encrypted c) \<Rightarrow> 2 # c)"

definition unwire_payload :: "bytes \<Rightarrow> hops packet_payload option option" where
  "unwire_payload bs = (case bs of
     [] \<Rightarrow> None
   | kind # bs \<Rightarrow>
       if kind = 0 \<and> bs = [] then Some None
       else if kind = 1 then map_option (\<lambda>d. Some (Decoded d)) (unwire_data bs)
       else if kind = 2 then Some (Some (Encrypted bs))
       else None)"

definition unwire_fields :: "bytes \<Rightarrow> hops mesh_packet option" where
  "unwire_fields bs = do {
     (sender, bs) \<leftarrow> get32 bs; (dest, bs) \<leftarrow> get32 bs; (channel, bs) \<leftarrow> get32 bs; (packet_id, bs) \<leftarrow> get32 bs;
     (transport, bs) \<leftarrow> get32 bs; (rest, bs) \<leftarrow> get_hops bs;
     case bs of
       [] \<Rightarrow> None
     | flag # bs \<Rightarrow> map_option (\<lambda>v.
         \<lparr>mp_from = sender, mp_to = dest, mp_channel = channel, mp_id = packet_id, mp_payload_variant = v,
          mp_pki_encrypted = (flag = 1), mp_transport_mechanism = transport, mp_rest = rest\<rparr>) (unwire_payload bs) }"

lemma unwire_fields_wire [simp]: "unwire_fields (wire_mesh p) = Some p"
  by (cases p)
    (simp add: unwire_fields_def wire_mesh_def unwire_payload_def put_flag_def split: option.split packet_payload.split)

definition empty_packet :: "hops mesh_packet" where
  "empty_packet = \<lparr>mp_from = 0, mp_to = 0, mp_channel = 0, mp_id = 0, mp_payload_variant = None,
     mp_pki_encrypted = False, mp_transport_mechanism = 0, mp_rest = (0, 0)\<rparr>"

definition unwire_mesh :: "bytes \<Rightarrow> hops mesh_packet option" where
  "unwire_mesh bs = (if bs = [] then Some empty_packet else unwire_fields bs)"

lemma unwire_mesh [simp]: "unwire_mesh (wire_mesh p) = Some p"
  by (simp add: unwire_mesh_def) (simp add: wire_mesh_def)

section \<open>Messages between radio and host\<close>

definition wire_from_radio :: "hops from_radio \<Rightarrow> bytes" where
  "wire_from_radio m = to_le_bytes (fr_id m) @ (case fr_payload_variant m of
     None \<Rightarrow> [0]
   | Some (From_packet p) \<Rightarrow> 1 # wire_mesh p
   | Some (From_my_info n x) \<Rightarrow> 2 # to_le_bytes n @ put_hops x
   | Some (From_config_complete_id i) \<Rightarrow> 3 # to_le_bytes i
   | Some (From_rebooted b) \<Rightarrow> [4, put_flag b]
   | Some _ \<Rightarrow> [5])"

definition unwire_variant :: "bytes \<Rightarrow> hops from_radio_variant option option" where
  "unwire_variant bs = (case bs of
     [] \<Rightarrow> None
   | kind # bs \<Rightarrow>
       if kind = 0 \<and> bs = [] then Some None
       else if kind = 1 then map_option (\<lambda>p. Some (From_packet p)) (unwire_mesh bs)
       else if kind = 2 then do { (n, bs) \<leftarrow> get32 bs; (x, _) \<leftarrow> get_hops bs; Some (Some (From_my_info n x)) }
       else if kind = 3 then do { (i, _) \<leftarrow> get32 bs; Some (Some (From_config_complete_id i)) }
       else if kind = 4 \<and> bs \<noteq> [] then Some (Some (From_rebooted (hd bs = 1)))
       else None)"

definition unwire_from_radio :: "bytes \<Rightarrow> hops from_radio option" where
  "unwire_from_radio bs =
     (if bs = [] then Some \<lparr>fr_id = 0, fr_payload_variant = None\<rparr>
      else do { (i, bs) \<leftarrow> get32 bs; v \<leftarrow> unwire_variant bs; Some \<lparr>fr_id = i, fr_payload_variant = v\<rparr> })"

definition wired :: "hops from_radio \<Rightarrow> bool" where
  "wired m \<longleftrightarrow> (case fr_payload_variant m of
     Some (From_config _) \<Rightarrow> False | Some (From_module_config _) \<Rightarrow> False | Some (From_channel _) \<Rightarrow> False
   | Some (From_other _) \<Rightarrow> False | _ \<Rightarrow> True)"

lemma get32_put_end [simp]: "get32 (to_le_bytes w) = Some (w, [])"
  using get32_put [of w "[]"] by simp

lemma get_hops_put_end [simp]: "get_hops (put_hops h) = Some (h, [])"
  using get_hops_put [of h "[]"] by simp

lemma unwire_from_radio [simp]: "wired m \<Longrightarrow> unwire_from_radio (wire_from_radio m) = Some m"
  by (cases m) (auto simp: unwire_from_radio_def wire_from_radio_def wired_def unwire_variant_def
      split: option.splits from_radio_variant.splits)

section \<open>Messages to the radio\<close>

text \<open>A string is preceded by its length.\<close>

definition put_string :: "string \<Rightarrow> bytes" where
  "put_string s = to_le_bytes (of_nat (length s)) @ as_bytes s"

definition get_string :: "bytes \<Rightarrow> (string \<times> bytes) option" where
  "get_string bs = do {
     (n, bs) \<leftarrow> get32 bs;
     if length bs < unat n then None else Some (from_bytes (take (unat n) bs), drop (unat n) bs) }"

lemma get_string_put [simp]: "length s < 2 ^ 32 \<Longrightarrow> get_string (put_string s @ bs) = Some (s, bs)"
  by (simp add: get_string_def put_string_def unat_of_nat)

definition wire_proxy :: "hops proxy_message \<Rightarrow> bytes" where
  "wire_proxy m = put_string (pm_topic m) @ put_flag (pm_retained m) # (case pm_payload_variant m of
     None \<Rightarrow> [0] | Some (Proxy_data d) \<Rightarrow> 1 # d | Some (Proxy_other x) \<Rightarrow> 2 # put_hops x)"

definition unwire_proxy :: "bytes \<Rightarrow> hops proxy_message option" where
  "unwire_proxy bs = do {
     (topic, bs) \<leftarrow> get_string bs;
     case bs of
       flag # kind # bs \<Rightarrow> map_option
         (\<lambda>v. \<lparr>pm_topic = topic, pm_retained = (flag = 1), pm_payload_variant = v\<rparr>)
         (if kind = 0 then Some None else if kind = 1 then Some (Some (Proxy_data bs))
          else map_option (\<lambda>(x, _). Some (Proxy_other x)) (get_hops bs))
     | _ \<Rightarrow> None }"

lemma unwire_proxy [simp]: "length (pm_topic m) < 2 ^ 32 \<Longrightarrow> unwire_proxy (wire_proxy m) = Some m"
  by (cases m) (simp add: unwire_proxy_def wire_proxy_def split: option.split proxy_payload.split)

definition wire_to_radio :: "hops to_radio \<Rightarrow> bytes" where
  "wire_to_radio m = (case m of
     To_packet p \<Rightarrow> 1 # wire_mesh p
   | To_want_config_id i \<Rightarrow> 3 # to_le_bytes i
   | To_heartbeat n \<Rightarrow> 7 # to_le_bytes n
   | To_mqtt_proxy pm \<Rightarrow> 6 # wire_proxy pm
   | To_other x \<Rightarrow> 9 # put_hops x)"

definition unwire_to_radio :: "bytes \<Rightarrow> hops to_radio option" where
  "unwire_to_radio bs = (case bs of
     [] \<Rightarrow> None
   | kind # bs \<Rightarrow>
       if kind = 1 then map_option To_packet (unwire_mesh bs)
       else if kind = 3 then map_option (\<lambda>(i, _). To_want_config_id i) (get32 bs)
       else if kind = 7 then map_option (\<lambda>(n, _). To_heartbeat n) (get32 bs)
       else if kind = 6 then map_option To_mqtt_proxy (unwire_proxy bs)
       else if kind = 9 then map_option (\<lambda>(x, _). To_other x) (get_hops bs)
       else None)"

lemma unwire_to_radio_simps [simp]:
  "unwire_to_radio (wire_to_radio (To_packet p)) = Some (To_packet p)"
  "unwire_to_radio (wire_to_radio (To_want_config_id i)) = Some (To_want_config_id i)"
  "unwire_to_radio (wire_to_radio (To_heartbeat i)) = Some (To_heartbeat i)"
  "length (pm_topic m) < 2 ^ 32 \<Longrightarrow> unwire_to_radio (wire_to_radio (To_mqtt_proxy m)) = Some (To_mqtt_proxy m)"
  by (simp_all add: wire_to_radio_def unwire_to_radio_def)

definition wire_envelope :: "hops service_envelope \<Rightarrow> bytes" where
  "wire_envelope e = put_string (se_channel_id e) @ put_string (se_gateway_id e) @
     (case se_packet e of None \<Rightarrow> [0] | Some p \<Rightarrow> 1 # wire_mesh p)"

definition unwire_envelope :: "bytes \<Rightarrow> hops service_envelope option" where
  "unwire_envelope bs = do {
     (channel_id, bs) \<leftarrow> get_string bs; (gateway_id, bs) \<leftarrow> get_string bs;
     case bs of
       [] \<Rightarrow> None
     | kind # bs \<Rightarrow> map_option (\<lambda>p. \<lparr>se_packet = p, se_channel_id = channel_id, se_gateway_id = gateway_id\<rparr>)
         (if kind = 0 then Some None else map_option Some (unwire_mesh bs)) }"

lemma unwire_envelope [simp]:
  "length (se_channel_id e) < 2 ^ 32 \<Longrightarrow> length (se_gateway_id e) < 2 ^ 32 \<Longrightarrow> unwire_envelope (wire_envelope e) = Some e"
  by (cases e) (simp add: unwire_envelope_def wire_envelope_def split: option.split)

section \<open>The instance\<close>

definition wire_proto :: "hops proto" where
  "wire_proto =
     \<lparr>encode_mesh_packet = wire_mesh, decode_mesh_packet = unwire_mesh,
      encode_data = wire_data, decode_data = unwire_data,
      decode_from_radio = unwire_from_radio, encode_to_radio = wire_to_radio,
      encode_envelope = wire_envelope, encode_admin = (\<lambda>a. []),
      transport_multicast_udp = 6, transport_mqtt = 5, portnum_admin_app = 6, region_unset = 0,
      default_rest = (0, 0)\<rparr>"

lemma wire_proto_simps [simp]:
  "encode_mesh_packet wire_proto = wire_mesh" "decode_mesh_packet wire_proto = unwire_mesh"
  "encode_data wire_proto = wire_data" "decode_data wire_proto = unwire_data"
  "decode_from_radio wire_proto = unwire_from_radio" "encode_to_radio wire_proto = wire_to_radio"
  "encode_envelope wire_proto = wire_envelope"
  "transport_multicast_udp wire_proto = 6" "transport_mqtt wire_proto = 5"
  "default_rest wire_proto = (0, 0)"
  by (simp_all add: wire_proto_def)

section \<open>Sizes\<close>

lemma wire_sizes [simp]:
  "length (put_hops h) = 8" "length (put_string s) = 4 + length s"
  "length (wire_data d) = 13 + length (d_payload d)"
  "length (wire_mesh p) = 29 + (case mp_payload_variant p of
     None \<Rightarrow> 1 | Some (Decoded d) \<Rightarrow> 14 + length (d_payload d) | Some (Encrypted c) \<Rightarrow> 1 + length c)"
  "length (wire_to_radio (To_packet p)) = 1 + length (wire_mesh p)"
  "length (wire_to_radio (To_want_config_id i)) = 5"
  "length (wire_to_radio (To_heartbeat i)) = 5"
  "length (wire_to_radio (To_mqtt_proxy m)) = 6 + length (pm_topic m) + (case pm_payload_variant m of
     None \<Rightarrow> 1 | Some (Proxy_data d) \<Rightarrow> 1 + length d | Some (Proxy_other x) \<Rightarrow> 9)"
  "length (wire_envelope e) = 8 + length (se_channel_id e) + length (se_gateway_id e) +
     (case se_packet e of None \<Rightarrow> 1 | Some p \<Rightarrow> 1 + length (wire_mesh p))"
  "length (wire_from_radio fr) = 4 + (case fr_payload_variant fr of
     None \<Rightarrow> 1 | Some (From_packet p) \<Rightarrow> 1 + length (wire_mesh p) | Some (From_my_info n x) \<Rightarrow> 13
   | Some (From_config_complete_id i) \<Rightarrow> 5 | Some (From_rebooted b) \<Rightarrow> 2 | Some _ \<Rightarrow> 1)"
  by (simp_all add: put_hops_def put_string_def wire_data_def wire_mesh_def wire_to_radio_def wire_proxy_def wire_envelope_def
      wire_from_radio_def split: option.split packet_payload.split proxy_payload.split from_radio_variant.split)

end
