(* ===== verification/Exchange.thy ===== *)
theory Exchange
  imports Wire
begin

text \<open>
  Whole frames in the handshake: its loop reads single bytes, and a frame that arrives undisturbed is one step on
  its payload.
\<close>

section \<open>One frame is one step\<close>

text \<open>At this instant the loop only reads: no limit has passed and no request is due.\<close>

definition undisturbed :: "hs_config \<Rightarrow> 'x hs_state \<Rightarrow> nat \<Rightarrow> bool" where
  "undisturbed c s now \<longleftrightarrow> now \<le> hc_deadline c \<and>
     (hs_heard s \<or> (case hc_probe c of None \<Rightarrow> True
        | Some p \<Rightarrow> now \<le> hc_start c + pt_first_frame p \<and>
            (case hs_next_resend s of Some t \<Rightarrow> now < t | None \<Rightarrow> True)))"

lemma undisturbed_reader [simp]: "undisturbed c (s\<lparr>hs_reader := r\<rparr>) now = undisturbed c s now"
  by (simp add: undisturbed_def cong: option.case_cong)

lemma same_reader: "hs_reader s = r \<Longrightarrow> s\<lparr>hs_reader := r\<rparr> = s"
  by auto

lemma undisturbed_iteration:
  "undisturbed c s (hi_now i) \<Longrightarrow> hs_iteration P c i s = hs_on_read P c i s"
  by (auto simp: hs_iteration_def undisturbed_def Let_def split: option.splits bool.split)

lemma byte_input_simps [simp]:
  "hi_now (byte_input now b) = now" "hi_read (byte_input now b) = Read_ok [b]"
  "hi_reboot_write (byte_input now b) = None" "hi_resend_write (byte_input now b) = None"
  by (simp_all add: byte_input_def)

lemma hs_loop_silent:
  assumes "undisturbed c s now" and "feed_bytes (hs_reader s) bs = (r, [])"
  shows "hs_loop P c s (map (byte_input now) bs @ is) = hs_loop P c (s\<lparr>hs_reader := r\<rparr>) is"
  using assms
proof (induction bs arbitrary: s)
  case (Cons b bs)
  obtain r' where r': "feed (hs_reader s) b = (r', None)" "feed_bytes r' bs = (r, [])"
    using Cons.prems(2) by (auto split: prod.splits option.splits)
  have "hs_loop P c s (map (byte_input now) (b # bs) @ is) = hs_loop P c (s\<lparr>hs_reader := r'\<rparr>) (map (byte_input now) bs @ is)"
    using Cons.prems(1) r'(1) by (simp add: undisturbed_iteration hs_on_read_def)
  also have "\<dots> = hs_loop P c (s\<lparr>hs_reader := r\<rparr>) is"
    using Cons.IH [of "s\<lparr>hs_reader := r'\<rparr>"] Cons.prems(1) r'(2) by simp
  finally show ?case .
qed (simp add: same_reader)

lemma frame_last_byte:
  assumes "length p \<le> MAX_PACKET_SIZE"
  obtains front b r where "frame_payload p = front @ [b]" and "feed_bytes FrameReader_new front = (r, [])"
    and "feed r b = (FrameReader_new, Some p)"
proof -
  let ?hi = "of_nat (drop_bit 8 (length p)) :: u8" and ?lo = "of_nat (length p AND 0xFF) :: u8"
  have len: "frame_len ?hi ?lo = length p"
    using assms frame_len_header [of "length p"] by (simp add: MAX_PACKET_SIZE_def)
  have head: "feed_bytes FrameReader_new [START1, START2, ?hi] = (\<lparr>state = ReadLenLow ?hi, buf = []\<rparr>, [])"
    by (simp add: feed_def FrameReader_new_def)
  show thesis
  proof (cases p rule: rev_cases)
    case Nil
    show thesis
    proof (rule that [of "[START1, START2, ?hi]" ?lo])
      show "feed \<lparr>state = ReadLenLow ?hi, buf = []\<rparr> ?lo = (FrameReader_new, Some p)"
        using len Nil by (simp add: feed_def FrameReader_new_def)
    qed (use Nil head in \<open>simp_all add: frame_payload_shape\<close>)
  next
    case (snoc q b)
    let ?r = "\<lparr>state = ReadPayload (length p), buf = []\<rparr>"
    have lo: "feed \<lparr>state = ReadLenLow ?hi, buf = []\<rparr> ?lo = (?r, None)"
      using len snoc assms by (simp add: feed_def Let_def)
    have q: "feed_bytes ?r q = (?r\<lparr>buf := q\<rparr>, [])"
      using feed_payload_partial [of ?r "length p" q] snoc by simp
    have split: "[START1, START2, ?hi, ?lo] @ q = [START1, START2, ?hi] @ ?lo # q" by simp
    show thesis
    proof (rule that [of "[START1, START2, ?hi, ?lo] @ q" b])
      show "feed_bytes FrameReader_new ([START1, START2, ?hi, ?lo] @ q) = (?r\<lparr>buf := q\<rparr>, [])"
        by (simp only: split feed_bytes_append head) (simp add: lo q)
      show "feed (?r\<lparr>buf := q\<rparr>) b = (FrameReader_new, Some p)"
        using snoc by (simp add: feed_def FrameReader_new_def)
    qed (use snoc in \<open>simp add: frame_payload_shape\<close>)
  qed
qed

lemma hs_loop_frame:
  assumes "undisturbed c s now" and "hs_reader s = FrameReader_new" and "length p \<le> MAX_PACKET_SIZE"
  shows "hs_loop P c s (map (byte_input now) (frame_payload p) @ is) =
    (case hs_on_payload P c None s p of
       (ws, Hs_done r) \<Rightarrow> (ws, Some r)
     | (ws, Hs_continue s') \<Rightarrow> (case hs_loop P c s' is of (ws', r) \<Rightarrow> (ws @ ws', r)))"
proof -
  obtain front b r where f: "frame_payload p = front @ [b]" "feed_bytes FrameReader_new front = (r, [])"
      "feed r b = (FrameReader_new, Some p)"
    by (rule frame_last_byte [OF assms(3)])
  have "hs_loop P c s (map (byte_input now) (frame_payload p) @ is) =
      hs_loop P c (s\<lparr>hs_reader := r\<rparr>) (byte_input now b # is)"
    using hs_loop_silent [OF assms(1), of front r P "byte_input now b # is"] f(1,2) assms(2) by simp
  also have "\<dots> = (case hs_on_payload P c None s p of
       (ws, Hs_done r) \<Rightarrow> (ws, Some r)
     | (ws, Hs_continue s') \<Rightarrow> (case hs_loop P c s' is of (ws', r) \<Rightarrow> (ws @ ws', r)))"
    using assms(1,2) f(3) by (simp add: undisturbed_iteration hs_on_read_def same_reader)
  finally show ?thesis .
qed

section \<open>A radio that answers\<close>

text \<open>A payload with a message of the radio, not an echo of the request.\<close>

definition reply :: "'x proto \<Rightarrow> bytes \<Rightarrow> bytes \<Rightarrow> 'x from_radio_variant \<Rightarrow> bool" where
  "reply P request payload v \<longleftrightarrow> payload \<noteq> request \<and> length payload \<le> MAX_PACKET_SIZE \<and>
     (\<exists>fr. decode_from_radio P payload = Some fr \<and> fr_payload_variant fr = Some v)"

lemma on_reply:
  assumes "reply P (hc_request c) payload v"
  shows "hs_on_payload P c w s payload = hs_on_variant c w (s\<lparr>hs_heard := True\<rparr>) v"
  using assms by (auto simp: reply_def hs_on_payload_def Let_def)

definition radio_says :: "hops from_radio_variant \<Rightarrow> bytes" where
  "radio_says v = wire_from_radio \<lparr>fr_id = 0, fr_payload_variant = Some v\<rparr>"

lemma decode_radio_says [simp]:
  "wired \<lparr>fr_id = 0, fr_payload_variant = Some v\<rparr> \<Longrightarrow>
    unwire_from_radio (radio_says v) = Some \<lparr>fr_id = 0, fr_payload_variant = Some v\<rparr>"
  by (simp add: radio_says_def)

lemma radio_says_not_request: "wired \<lparr>fr_id = 0, fr_payload_variant = Some v\<rparr> \<Longrightarrow> radio_says v \<noteq> want_config_request wire_proto i"
proof
  assume w: "wired \<lparr>fr_id = 0, fr_payload_variant = Some v\<rparr>" and "radio_says v = want_config_request wire_proto i"
  then have "length (radio_says v) = 5" by (simp add: want_config_request_def)
  with w show False
    by (simp add: radio_says_def wired_def split: from_radio_variant.splits option.splits packet_payload.splits)
qed

lemma reply_radio_says:
  "wired \<lparr>fr_id = 0, fr_payload_variant = Some v\<rparr> \<Longrightarrow> length (radio_says v) \<le> MAX_PACKET_SIZE \<Longrightarrow>
    reply wire_proto (want_config_request wire_proto i) (radio_says v) v"
  by (simp add: reply_def radio_says_not_request)

end
