(* ===== verification/Discovery.thy ===== *)
theory Discovery
  imports Autodetect
begin

text \<open>
  Auto mode from the file system to the handshake result: a radio that is plugged in, free and answering is
  found, whatever the serial devices before it do, unless one of them is a radio that answers, too.
\<close>

section \<open>Ports\<close>

text \<open>A probe that meets an instant past its limit, or a failing first write, has returned.\<close>

definition clock_passes :: "probe_timeouts \<Rightarrow> port \<Rightarrow> bool" where
  "clock_passes timeouts p \<longleftrightarrow> po_first_write p \<noteq> None \<or> (\<exists>i \<in> set (po_inputs p). po_start p + pt_total timeouts < hi_now i)"

text \<open>
  A radio answers in time with \<open>info\<close>: nothing fails, a genuine reply is complete before the limit for the first
  frame, and up to the limit of the handshake the messages from there on are a dump of that configuration.
  The bytes may come at any instants, with noise or an echo before them and anything after them.
\<close>

definition radio_answers :: "'x proto \<Rightarrow> probe_timeouts \<Rightarrow> port \<Rightarrow> 'x radio_info \<Rightarrow> bool" where
  "radio_answers P timeouts p info \<longleftrightarrow> po_first_write p = None \<and>
     (\<exists>early later rest. po_inputs p = early @ later @ rest \<and>
        list_all (probing timeouts (po_start p)) (early @ later) \<and>
        list_all (\<lambda>i. hi_now i \<le> po_start p + pt_first_frame timeouts) early \<and>
        (\<exists>f \<in> set (hunt (received early)). \<not> no_reply P (want_config_request P (po_config_id p)) f) \<and>
        handshake_spec (po_config_id p) (messages P (dropWhile (no_reply P (want_config_request P (po_config_id p)))
          (hunt (received (early @ later))))) = Some (Inr info))"

lemma probe_returns:
  assumes "clock_passes timeouts p"
  shows "probe P p timeouts \<noteq> None"
proof (cases "po_first_write p")
  case None
  with assms obtain i where "i \<in> set (po_inputs p)"
      "hc_deadline (hs_config_for P (po_config_id p) (po_start p) (pt_total timeouts) (Some timeouts)) < hi_now i"
    by (auto simp: clock_passes_def hs_config_for_def)
  from hs_polling.returns [OF this, of P "hs_initial (po_start p) (Some timeouts)"] None show ?thesis
    by (simp add: probe_def probe_port_def run_handshake_loop)
qed (simp add: probe_def probe_port_def run_handshake_def)

lemma probe_answered:
  assumes "radio_answers P timeouts p info"
  shows "probe P p timeouts = Some (Inr info)"
proof -
  obtain early later rest where p: "po_first_write p = None" "po_inputs p = early @ later @ rest"
      "list_all (probing timeouts (po_start p)) (early @ later)"
      "list_all (\<lambda>i. hi_now i \<le> po_start p + pt_first_frame timeouts) early"
      "\<exists>f \<in> set (hunt (received early)). \<not> no_reply P (want_config_request P (po_config_id p)) f"
      "handshake_spec (po_config_id p) (messages P (dropWhile (no_reply P (want_config_request P (po_config_id p)))
        (hunt (received (early @ later))))) = Some (Inr info)"
    using assms unfolding radio_answers_def by blast
  have "snd (probe_port P (po_config_id p) timeouts None (po_start p) (early @ later)) = Some (Inr info)"
    using probe_tracks_spec [OF p(3-5)] p(6) by (simp only:)
  then have "snd (hs_loop P (hs_config_for P (po_config_id p) (po_start p) (pt_total timeouts) (Some timeouts))
      (hs_initial (po_start p) (Some timeouts)) (early @ later)) = Some (Inr info)"
    by (simp add: probe_port_def run_handshake_loop)
  with hs_polling.later_inputs_ignored [of P _ _ "early @ later" rest] show ?thesis
    by (simp add: probe_def probe_port_def p(1,2) run_handshake_loop)
qed

section \<open>The scan\<close>

text \<open>If the probes before a free candidate that answers return, the scan ends at the first that does.\<close>

lemma scan_finds:
  assumes "\<forall>d \<in> set earlier. \<forall>p. open_port (cd_device d) = Inr p \<longrightarrow> probe P p timeouts \<noteq> None"
    and "busy (cd_device c) = None" and "answer P open_port timeouts c = Some g"
  shows "\<exists>before d after f. earlier @ [c] = before @ d # after \<and> busy (cd_device d) = None \<and>
    answer P open_port timeouts d = Some f \<and>
    (\<forall>e \<in> set before. busy (cd_device e) \<noteq> None \<or> answer P open_port timeouts e = None) \<and>
    scan P busy open_port timeouts (earlier @ c # others) =
      (map cd_device (filter (\<lambda>e. busy (cd_device e) = None) (before @ [d])), Some (Some f))"
  using assms(1)
proof (induction earlier)
  case Nil
  have "scan P busy open_port timeouts (c # others) = ([cd_device c], Some (Some g))"
    using assms(2,3) by (auto simp: answer_def split: sum.splits option.splits)
  with assms(2,3) show ?case by (intro exI [of _ "[]"]) simp
next
  case (Cons e earlier)
  show ?case
  proof (cases "busy (cd_device e) = None \<and> answer P open_port timeouts e \<noteq> None")
    case True
    then obtain f where f: "answer P open_port timeouts e = Some f" by blast
    then have "scan P busy open_port timeouts ((e # earlier) @ c # others) = ([cd_device e], Some (Some f))"
      using True by (auto simp: answer_def split: sum.splits option.splits)
    with True f show ?thesis by (intro exI [of _ "[]"]) simp
  next
    case False
    obtain before d after f where ih: "earlier @ [c] = before @ d # after" "busy (cd_device d) = None"
        "answer P open_port timeouts d = Some f"
        "\<forall>e \<in> set before. busy (cd_device e) \<noteq> None \<or> answer P open_port timeouts e = None"
        "scan P busy open_port timeouts (earlier @ c # others) =
          (map cd_device (filter (\<lambda>e. busy (cd_device e) = None) (before @ [d])), Some (Some f))"
      using Cons.IH Cons.prems by auto
    have "scan P busy open_port timeouts ((e # earlier) @ c # others) =
        (map cd_device (filter (\<lambda>e. busy (cd_device e) = None) ((e # before) @ [d])), Some (Some f))"
      using False Cons.prems ih(5) by (auto simp: answer_def split: sum.splits option.splits prod.split)
    with ih False show ?thesis by (intro exI [of _ "e # before"]) auto
  qed
qed

section \<open>Properties\<close>

text \<open>C29: auto mode finds the radio.  If a listed device is free and opens and a radio answers on it in time, then \<open>detect\<close>
  returns, whatever the ports before it do in the time they are given: its result is the first free candidate of the
  list that answers, with its configuration, and it has opened the free candidates up to there in their order and none after
  it.  If no free candidate before this radio answers, the result is this radio.\<close>

theorem detect_finds_radio:
  assumes "system_candidates fs = earlier @ c # others"
    and "busy_devices fs ''/proc'' pid (system_candidates fs) (cd_device c) = None"
    and "open_port (cd_device c) = Inr p" and "radio_answers P PROBE_TIMEOUTS p info"
    and "\<forall>d \<in> set earlier. \<forall>q. open_port (cd_device d) = Inr q \<longrightarrow> clock_passes PROBE_TIMEOUTS q"
  shows "\<exists>before d after f.
    earlier @ [c] = before @ d # after \<and>
    busy_devices fs ''/proc'' pid (system_candidates fs) (cd_device d) = None \<and>
    answer P open_port PROBE_TIMEOUTS d = Some f \<and>
    (\<forall>e \<in> set before. busy_devices fs ''/proc'' pid (system_candidates fs) (cd_device e) \<noteq> None \<or>
       answer P open_port PROBE_TIMEOUTS e = None) \<and>
    detect P fs pid open_port =
      (map cd_device (filter (\<lambda>e. busy_devices fs ''/proc'' pid (system_candidates fs) (cd_device e) = None) (before @ [d])),
       Some (Some f)) \<and>
    (before = earlier \<longrightarrow> f = \<lparr>fo_port = p, fo_info = info\<rparr>)"
proof -
  let ?busy = "busy_devices fs ''/proc'' pid (system_candidates fs)"
  have c: "answer P open_port PROBE_TIMEOUTS c = Some \<lparr>fo_port = p, fo_info = info\<rparr>"
    using probe_answered [OF assms(4)] assms(3) by (simp add: answer_def)
  have "\<forall>d \<in> set earlier. \<forall>q. open_port (cd_device d) = Inr q \<longrightarrow> probe P q PROBE_TIMEOUTS \<noteq> None"
    using assms(5) probe_returns by blast
  from scan_finds [OF this, of ?busy c, OF assms(2) c, of others] obtain before d after f where
    d: "earlier @ [c] = before @ d # after" "?busy (cd_device d) = None" "answer P open_port PROBE_TIMEOUTS d = Some f"
      "\<forall>e \<in> set before. ?busy (cd_device e) \<noteq> None \<or> answer P open_port PROBE_TIMEOUTS e = None"
      "scan P ?busy open_port PROBE_TIMEOUTS (earlier @ c # others) =
        (map cd_device (filter (\<lambda>e. ?busy (cd_device e) = None) (before @ [d])), Some (Some f))"
    by blast
  have "detect P fs pid open_port =
      (map cd_device (filter (\<lambda>e. ?busy (cd_device e) = None) (before @ [d])), Some (Some f))"
    unfolding detect_def Let_def by (simp only: assms(1) d(5) [unfolded assms(1)])
  moreover have "f = \<lparr>fo_port = p, fo_info = info\<rparr>" if "before = earlier"
    using d(1,3) c that by simp
  ultimately show ?thesis using d(1-4) by blast
qed

section \<open>Examples\<close>

text \<open>Two ports: on the first nothing answers, on the second a radio does after three seconds, in two parts.\<close>

definition two_ports :: fs_env where
  "two_ports = \<lparr>read_dir = (\<lambda>_. None), utf8 = (\<lambda>_. True), canonicalize = Some, read_link = (\<lambda>_. None),
     linux = False, available_ports = Inr [''COM1'', ''COM3'']\<rparr>"

definition silent_port :: port where
  "silent_port = \<lparr>po_config_id = 4, po_first_write = None, po_start = 0, po_inputs = [quiet_input 500, quiet_input 30001]\<rparr>"

definition radio_port :: port where
  "radio_port = \<lparr>po_config_id = 5, po_first_write = None, po_start = 30001,
     po_inputs = map (byte_input 33001) (frame_payload [1, 7]) @ map (byte_input 39001) (frame_payload [2, 5])\<rparr>"

definition open_two :: "path \<Rightarrow> port io_result" where
  "open_two d = Inr (if d = ''COM1'' then silent_port else radio_port)"

lemma radio_port_answers: "radio_answers sample_proto PROBE_TIMEOUTS radio_port (radio_info_new\<lparr>ri_my_node_num := 7\<rparr>)"
proof -
  let ?early = "map (byte_input 33001) (frame_payload [1, 7])" and ?later = "map (byte_input 39001) (frame_payload [2, 5])"
  have early: "hunt (received ?early) = [[1, 7]]"
    using serial_link.batch_arrives [of "[[1, 7]]"] feed_bytes_reference(1) [of "received ?early"]
    by (simp add: FrameReader_new_def MAX_PACKET_SIZE_def)
  have all: "hunt (received (?early @ ?later)) = [[1, 7], [2, 5]]"
    using serial_link.batch_arrives [of "[[1, 7], [2, 5]]"] feed_bytes_reference(1) [of "received (?early @ ?later)"]
    by (simp add: FrameReader_new_def MAX_PACKET_SIZE_def)
  have "list_all (probing PROBE_TIMEOUTS 30001) (?early @ ?later)"
    and "list_all (\<lambda>i. hi_now i \<le> 30001 + pt_first_frame PROBE_TIMEOUTS) ?early"
    by (auto simp: list_all_iff probing_def smooth_def byte_input_def PROBE_TIMEOUTS_def HANDSHAKE_TIMEOUT_def)
  moreover have "\<exists>f \<in> set (hunt (received ?early)). \<not> no_reply sample_proto (want_config_request sample_proto 5) f"
    unfolding early by (simp add: no_reply_def want_config_request_def)
  moreover have "handshake_spec 5 (messages sample_proto (dropWhile (no_reply sample_proto (want_config_request sample_proto 5))
      (hunt (received (?early @ ?later))))) = Some (Inr (radio_info_new\<lparr>ri_my_node_num := 7\<rparr>))"
    unfolding all by (simp add: no_reply_def want_config_request_def handshake_spec_def since_reboot_def dump_result_def
        info_of_def extractors List.map_filter_def last_opt_def radio_info_new_def)
  ultimately show ?thesis
    unfolding radio_answers_def
    by (intro conjI exI [of _ ?early] exI [of _ ?later] exI [of _ "[]"])
      (simp_all add: radio_port_def del: received_simps received_append received_bytes frame_payload_shape list_all_append)
qed

theorem detect_finds_radio_witness:
  "\<exists>f. detect sample_proto two_ports 1 open_two = ([''COM1'', ''COM3''], Some (Some f)) \<and>
     fo_port f = radio_port \<and> ri_my_node_num (fo_info f) = 7"
proof -
  let ?c = "\<lambda>d. \<lparr>cd_device = d, cd_alias = None\<rparr>"
  have cands: "system_candidates two_ports = [?c ''COM1''] @ ?c ''COM3'' # []"
    by (simp add: system_candidates_def two_ports_def)
  have free: "busy_devices two_ports root pid cs d = None" for root pid cs d
    by (simp add: busy_devices_def two_ports_def)
  have silent: "answer sample_proto open_two PROBE_TIMEOUTS (?c ''COM1'') = None"
    by (simp add: answer_def open_two_def silent_port_def probe_def probe_port_def run_handshake_def hs_config_for_def hs_initial_def
        hs_iteration_def hs_on_read_def quiet_input_def PROBE_TIMEOUTS_def HANDSHAKE_TIMEOUT_def timed_out_def)
  have passes: "\<forall>d \<in> set [?c ''COM1'']. \<forall>q. open_two (cd_device d) = Inr q \<longrightarrow> clock_passes PROBE_TIMEOUTS q"
    by (simp add: open_two_def silent_port_def clock_passes_def PROBE_TIMEOUTS_def HANDSHAKE_TIMEOUT_def)
  have opens: "open_two (cd_device (?c ''COM3'')) = Inr radio_port" by (simp add: open_two_def)
  from detect_finds_radio [OF cands free opens radio_port_answers passes, of 1] obtain before d after f where
    d: "[?c ''COM1''] @ [?c ''COM3''] = before @ d # after" "answer sample_proto open_two PROBE_TIMEOUTS d = Some f"
      "detect sample_proto two_ports 1 open_two = (map cd_device (before @ [d]), Some (Some f))"
      "before = [?c ''COM1''] \<longrightarrow> f = \<lparr>fo_port = radio_port, fo_info = radio_info_new\<lparr>ri_my_node_num := 7\<rparr>\<rparr>"
    by (auto simp: free simp del: One_nat_def)
  have "before = [?c ''COM1''] \<and> d = ?c ''COM3''"
    using d(1,2) silent by (cases before) (auto simp: append_eq_Cons_conv Cons_eq_append_conv)
  with d(3,4) show ?thesis by simp
qed

end
