(* ===== verification/Mock.thy ===== *)
theory Mock
  imports Prelude
begin

text \<open>
  The mock serial port of \<open>src/test_util.rs\<close>.  Its handles share their buffers, so the buffers live in a store and a
  handle holds their address; \<open>try_clone\<close> copies the address.  The line settings and modem lines, constants that nothing
  reads and setters that do nothing, are left out.
\<close>

section \<open>State\<close>

text \<open>A responder may keep a counter of its calls: it is given how many writes came before, and the bytes written.\<close>

type_synonym responder = "nat \<Rightarrow> bytes \<Rightarrow> bytes"

record mock_buffers =
  mb_read :: bytes
  mb_written :: bytes
  mb_writes :: nat

type_synonym mock_store = "mock_buffers list"

record mock_serial =
  mk_buffers :: nat
  mk_timeout :: nat
  mk_responder :: "responder option"

section \<open>Operations\<close>

definition mock_new :: "mock_store \<Rightarrow> mock_store \<times> mock_serial" where
  "mock_new st = (st @ [\<lparr>mb_read = [], mb_written = [], mb_writes = 0\<rparr>],
     \<lparr>mk_buffers = length st, mk_timeout = 100, mk_responder = None\<rparr>)"

definition with_responder :: "responder \<Rightarrow> mock_store \<Rightarrow> mock_store \<times> mock_serial" where
  "with_responder respond st = (case mock_new st of (st', m) \<Rightarrow> (st', m\<lparr>mk_responder := Some respond\<rparr>))"

definition inject_read_data :: "mock_serial \<Rightarrow> bytes \<Rightarrow> mock_store \<Rightarrow> mock_store" where
  "inject_read_data m data st =
     (let b = st ! mk_buffers m in st[mk_buffers m := b\<lparr>mb_read := mb_read b @ data\<rparr>])"

definition take_written :: "mock_serial \<Rightarrow> mock_store \<Rightarrow> mock_store \<times> bytes" where
  "take_written m st =
     (let b = st ! mk_buffers m in (st[mk_buffers m := b\<lparr>mb_written := []\<rparr>], mb_written b))"

text \<open>\<open>read\<close> into a buffer of \<open>n\<close> bytes: the outcome, and what is left.\<close>

definition mock_read :: "nat \<Rightarrow> bytes \<Rightarrow> read_outcome \<times> bytes" where
  "mock_read n read_buf =
     (if read_buf = [] then (Read_err (Io_error TimedOut ''mock: no data''), [])
      else (let count = min n (length read_buf) in (Read_ok (take count read_buf), drop count read_buf)))"

definition mock_port_read :: "mock_serial \<Rightarrow> nat \<Rightarrow> mock_store \<Rightarrow> mock_store \<times> read_outcome" where
  "mock_port_read m n st =
     (let b = st ! mk_buffers m; (outcome, left) = mock_read n (mb_read b)
      in (st[mk_buffers m := b\<lparr>mb_read := left\<rparr>], outcome))"

text \<open>\<open>write\<close> takes the whole buffer, so \<open>write_all\<close> is one call of it.\<close>

definition mock_write :: "mock_serial \<Rightarrow> bytes \<Rightarrow> mock_store \<Rightarrow> mock_store \<times> nat io_result" where
  "mock_write m buf st =
     (let b = st ! mk_buffers m;
          b' = b\<lparr>mb_written := mb_written b @ buf, mb_writes := Suc (mb_writes b)\<rparr>
      in (st[mk_buffers m := (case mk_responder m of
            Some respond \<Rightarrow> b'\<lparr>mb_read := mb_read b @ respond (mb_writes b) buf\<rparr>
          | None \<Rightarrow> b')], Inr (length buf)))"

definition mock_flush :: "mock_serial \<Rightarrow> unit io_result" where
  "mock_flush m = Inr ()"

definition mock_try_clone :: "mock_serial \<Rightarrow> mock_serial" where
  "mock_try_clone m = \<lparr>mk_buffers = mk_buffers m, mk_timeout = mk_timeout m, mk_responder = mk_responder m\<rparr>"

definition mock_set_timeout :: "mock_serial \<Rightarrow> nat \<Rightarrow> mock_serial" where
  "mock_set_timeout m timeout = m\<lparr>mk_timeout := timeout\<rparr>"

definition bytes_to_read :: "mock_serial \<Rightarrow> mock_store \<Rightarrow> u32" where
  "bytes_to_read m st = of_nat (length (mb_read (st ! mk_buffers m)))"

section \<open>What handles of one mock see\<close>

text \<open>The operations of any handles of one mock, in the order in which they take its locks.\<close>

datatype mock_op = M_inject bytes | M_read nat | M_write bytes | M_take

text \<open>What an operation does to the store, and the bytes it returns to a reader, or to a test that takes the writes.\<close>

fun mock_op_step :: "mock_serial \<Rightarrow> mock_op \<Rightarrow> mock_store \<Rightarrow> mock_store \<times> bytes \<times> bytes" where
  "mock_op_step m (M_inject data) st = (inject_read_data m data st, [], [])"
| "mock_op_step m (M_read n) st = (case mock_port_read m n st of (st', outcome) \<Rightarrow> (st', read_bytes outcome, []))"
| "mock_op_step m (M_write buf) st = (fst (mock_write m buf st), [], [])"
| "mock_op_step m M_take st = (case take_written m st of (st', taken) \<Rightarrow> (st', [], taken))"

fun mock_ops :: "mock_serial \<Rightarrow> mock_op list \<Rightarrow> mock_store \<Rightarrow> mock_store \<times> bytes \<times> bytes" where
  "mock_ops m [] st = (st, [], [])"
| "mock_ops m (p # ps) st = (case mock_op_step m p st of (st1, got1, taken1) \<Rightarrow>
     (case mock_ops m ps st1 of (st2, got2, taken2) \<Rightarrow> (st2, got1 @ got2, taken1 @ taken2)))"

text \<open>What arrives at the read buffer, and what is written, when \<open>k\<close> writes came before.\<close>

fun arrivals :: "responder option \<Rightarrow> nat \<Rightarrow> mock_op list \<Rightarrow> bytes" where
  "arrivals r k [] = []"
| "arrivals r k (M_inject data # ps) = data @ arrivals r k ps"
| "arrivals r k (M_write buf # ps) = (case r of Some respond \<Rightarrow> respond k buf | None \<Rightarrow> []) @ arrivals r (Suc k) ps"
| "arrivals r k (_ # ps) = arrivals r k ps"

fun writes_of :: "mock_op list \<Rightarrow> bytes" where
  "writes_of [] = []"
| "writes_of (M_write buf # ps) = buf @ writes_of ps"
| "writes_of (_ # ps) = writes_of ps"

lemma mock_read_split: "mock_read n buf = (outcome, left) \<Longrightarrow> read_bytes outcome @ left = buf"
  by (auto simp: mock_read_def read_bytes_def Let_def split: if_splits)

lemma mock_op_step_simps:
  assumes "mk_buffers m < length st"
  shows "mock_op_step m p st = (st', got, taken) \<Longrightarrow> length st' = length st \<and>
    (\<forall>k. k \<noteq> mk_buffers m \<longrightarrow> st' ! k = st ! k) \<and>
    got @ mb_read (st' ! mk_buffers m) = mb_read (st ! mk_buffers m) @ arrivals (mk_responder m) (mb_writes (st ! mk_buffers m)) [p] \<and>
    taken @ mb_written (st' ! mk_buffers m) = mb_written (st ! mk_buffers m) @ writes_of [p] \<and>
    mb_writes (st' ! mk_buffers m) = mb_writes (st ! mk_buffers m) + (case p of M_write buf \<Rightarrow> 1 | _ \<Rightarrow> 0)"
  using assms by (cases p) (auto simp: inject_read_data_def mock_port_read_def mock_write_def take_written_def Let_def
      mock_read_split split: prod.splits option.splits)

lemma arrivals_Cons:
  "arrivals r k (p # ps) = arrivals r k [p] @ arrivals r (k + (case p of M_write buf \<Rightarrow> 1 | _ \<Rightarrow> 0)) ps"
  by (cases p) simp_all

lemma writes_of_Cons: "writes_of (p # ps) = writes_of [p] @ writes_of ps"
  by (cases p) simp_all

text \<open>
  The mock is a pair of pipes: whatever the handles do and in whatever order, the bytes read so far and those
  still in the buffer are what was injected and responded, in order; likewise for the writes.
  Other mocks are not affected.
\<close>

theorem mock_is_pipes:
  assumes "mk_buffers m < length st" and "mock_ops m ps st = (st', got, taken)"
  shows "got @ mb_read (st' ! mk_buffers m) =
      mb_read (st ! mk_buffers m) @ arrivals (mk_responder m) (mb_writes (st ! mk_buffers m)) ps"
    and "taken @ mb_written (st' ! mk_buffers m) = mb_written (st ! mk_buffers m) @ writes_of ps"
    and "\<forall>k. k \<noteq> mk_buffers m \<longrightarrow> st' ! k = st ! k"
proof -
  let ?a = "mk_buffers m"
  have "got @ mb_read (st' ! ?a) = mb_read (st ! ?a) @ arrivals (mk_responder m) (mb_writes (st ! ?a)) ps \<and>
      taken @ mb_written (st' ! ?a) = mb_written (st ! ?a) @ writes_of ps \<and> (\<forall>k. k \<noteq> ?a \<longrightarrow> st' ! k = st ! k)"
    using assms
  proof (induction ps arbitrary: st got taken)
    case (Cons p ps)
    obtain st1 got1 taken1 where 1: "mock_op_step m p st = (st1, got1, taken1)" by (metis prod_cases3)
    obtain got2 taken2 where 2: "mock_ops m ps st1 = (st', got2, taken2)" "got = got1 @ got2" "taken = taken1 @ taken2"
      using Cons.prems(2) 1 by (auto split: prod.splits)
    note step = mock_op_step_simps [OF Cons.prems(1) 1]
    with Cons.prems(1) have "?a < length st1" by simp
    note rest = Cons.IH [OF this 2(1)]
    have "got @ mb_read (st' ! ?a) = got1 @ mb_read (st1 ! ?a) @ arrivals (mk_responder m) (mb_writes (st1 ! ?a)) ps"
      using rest 2(2) by simp
    also have "\<dots> = mb_read (st ! ?a) @ arrivals (mk_responder m) (mb_writes (st ! ?a)) (p # ps)"
      using step by (metis append.assoc arrivals_Cons)
    finally have got: "got @ mb_read (st' ! ?a) = mb_read (st ! ?a) @ arrivals (mk_responder m) (mb_writes (st ! ?a)) (p # ps)" .
    have "taken @ mb_written (st' ! ?a) = taken1 @ mb_written (st1 ! ?a) @ writes_of ps"
      using rest 2(3) by simp
    also have "\<dots> = mb_written (st ! ?a) @ writes_of (p # ps)"
      using step by (metis append.assoc writes_of_Cons)
    finally show ?case using got step rest by simp
  qed simp
  then show "got @ mb_read (st' ! ?a) = mb_read (st ! ?a) @ arrivals (mk_responder m) (mb_writes (st ! ?a)) ps"
    and "taken @ mb_written (st' ! ?a) = mb_written (st ! ?a) @ writes_of ps"
    and "\<forall>k. k \<noteq> ?a \<longrightarrow> st' ! k = st ! k" by blast+
qed

section \<open>A device that answers\<close>

text \<open>What the responder adds to the read buffer for a list of writes.\<close>

fun responses :: "responder \<Rightarrow> nat \<Rightarrow> bytes list \<Rightarrow> bytes" where
  "responses respond calls [] = []"
| "responses respond calls (w # ws) = respond calls w @ responses respond (Suc calls) ws"

lemma responses_are_arrivals: "responses respond calls ws = arrivals (Some respond) calls (map M_write ws)"
  by (induction ws arbitrary: calls) simp_all

text \<open>A fresh mock with a responder answers the writes of one handle to the reads of another.\<close>

lemma clone_reads_responses:
  assumes "with_responder respond st = (st1, m)" and "mock_ops m (map M_write ws) st1 = (st2, got, taken)"
  shows "mb_read (st2 ! mk_buffers (mock_try_clone m)) = responses respond 0 ws"
proof -
  have m: "mk_buffers m = length st" "mk_responder m = Some respond" "mk_buffers m < length st1"
      "st1 ! mk_buffers m = \<lparr>mb_read = [], mb_written = [], mb_writes = 0\<rparr>"
    using assms(1) by (auto simp: with_responder_def mock_new_def)
  have "got = []" using assms(2)
    by (induction ws arbitrary: st1 got taken) (auto split: prod.splits)
  with mock_is_pipes(1) [OF m(3) assms(2)] show ?thesis
    by (simp add: m(2,4) mock_try_clone_def responses_are_arrivals)
qed

end
