(* ===== verification/Conformance_Framing.thy ===== *)
theory Conformance_Framing
  imports Framing
begin

text \<open>
  The unit tests of \<open>src/serial_framing.rs\<close> as definitions, one for each test: what the test computes, with
  its assertions as a conjunction.  That they hold shows that the model of the reader does on these streams what
  the authors of the code observed of the code.
\<close>

section \<open>The tests\<close>

definition test_frame_payload_roundtrip :: bool where
  "test_frame_payload_roundtrip =
     (let data = as_bytes ''hello meshtastic'';
          framed = frame_payload data;
          (reader, frames) = feed_bytes FrameReader_new framed
      in length frames = 1 \<and> frames ! 0 = data)"

definition test_frame_reader_resyncs_on_garbage :: bool where
  "test_frame_reader_resyncs_on_garbage =
     (let data = [0x01, 0x02, 0x03, 0xFF];
          garbage = [0xAA, 0xBB, 0xCC, 0xDD, 0x94, 0x00, 0x94];
          (reader, frames) = feed_bytes FrameReader_new garbage;
          framed = frame_payload data;
          (reader', frames') = feed_bytes reader framed
      in frames = [] \<and> length frames' = 1 \<and> frames' ! 0 = data)"

definition test_frame_reader_rejects_oversized :: bool where
  "test_frame_reader_rejects_oversized =
     (let header = [START1, START2, 0x02, 0x01];
          (reader, frames) = feed_bytes FrameReader_new header;
          data = as_bytes ''ok'';
          framed = frame_payload data;
          (reader', frames') = feed_bytes reader framed
      in frames = [] \<and> length frames' = 1 \<and> frames' ! 0 = data)"

definition test_frame_reader_multiple_frames :: bool where
  "test_frame_reader_multiple_frames =
     (let data1 = as_bytes ''first''; data2 = as_bytes ''second'';
          combined = frame_payload data1 @ frame_payload data2;
          (reader, frames) = feed_bytes FrameReader_new combined
      in length frames = 2 \<and> frames ! 0 = data1 \<and> frames ! 1 = data2)"

definition test_frame_payload_empty :: bool where
  "test_frame_payload_empty =
     (let framed = frame_payload [];
          (reader, frames) = feed_bytes FrameReader_new framed
      in framed = [START1, START2, 0x00, 0x00] \<and> length frames = 1 \<and> frames ! 0 = [])"

definition test_frame_exact_max_size :: bool where
  "test_frame_exact_max_size =
     (let data = replicate MAX_PACKET_SIZE 0xAB;
          framed = frame_payload data;
          (reader, frames) = feed_bytes FrameReader_new framed
      in length frames = 1 \<and> frames ! 0 = data)"

definition test_frame_one_over_max :: bool where
  "test_frame_one_over_max =
     (let header = [START1, START2, 0x02, 0x01];
          (reader, frames) = feed_bytes FrameReader_new header;
          data = as_bytes ''recovery'';
          framed = frame_payload data;
          (reader', frames') = feed_bytes reader framed
      in frames = [] \<and> length frames' = 1 \<and> frames' ! 0 = data)"

definition test_start_bytes_inside_payload :: bool where
  "test_start_bytes_inside_payload =
     (let data = [0x01, START1, START2, 0x02, START1, 0xFF];
          framed = frame_payload data;
          (reader, frames) = feed_bytes FrameReader_new framed
      in length frames = 1 \<and> frames ! 0 = data)"

definition test_garbage_between_valid_frames :: bool where
  "test_garbage_between_valid_frames =
     (let data1 = as_bytes ''first''; data2 = as_bytes ''second'';
          stream = frame_payload data1 @ [0xFF, 0xFE, 0xFD, 0x94, 0x00] @ frame_payload data2;
          (reader, frames) = feed_bytes FrameReader_new stream
      in length frames = 2 \<and> frames ! 0 = data1 \<and> frames ! 1 = data2)"

text \<open>The loop of the test that calls \<open>feed\<close> for each byte and collects the frames.\<close>

fun feed_each :: "frame_reader \<Rightarrow> bytes list \<Rightarrow> bytes \<Rightarrow> bytes list" where
  "feed_each reader frames [] = frames"
| "feed_each reader frames (byte # stream) =
     (case feed reader byte of
        (reader', Some payload) \<Rightarrow> feed_each reader' (frames @ [payload]) stream
      | (reader', None) \<Rightarrow> feed_each reader' frames stream)"

definition test_feed_vs_feed_bytes_equivalence :: bool where
  "test_feed_vs_feed_bytes_equivalence =
     (let data1 = as_bytes ''alpha''; data2 = as_bytes ''beta'';
          stream = frame_payload data1 @ [0xFF, 0x00] @ frame_payload data2;
          (reader1, frames_bulk) = feed_bytes FrameReader_new stream;
          frames_single = feed_each FrameReader_new [] stream
      in frames_bulk = frames_single)"

definition test_frame_payload_oversized_input :: bool where
  "test_frame_payload_oversized_input =
     (let big = replicate (MAX_PACKET_SIZE + 1) 0xCC;
          framed = frame_payload big;
          (reader, frames) = feed_bytes FrameReader_new framed;
          data = as_bytes ''ok'';
          (reader', frames') = feed_bytes reader (frame_payload data)
      in framed ! 2 = 0x02 \<and> framed ! 3 = 0x01 \<and> frames = [] \<and> length frames' = 1 \<and> frames' ! 0 = data)"

section \<open>They pass\<close>

text \<open>A reader at rest receives a short frame; noise without a start byte leaves it at rest.\<close>

lemma receives [simp]:
  "length p \<le> MAX_PACKET_SIZE \<Longrightarrow> feed_bytes FrameReader_new (frame_payload p) = (FrameReader_new, [p])"
  by (rule serial_link.arrives)

lemma receives_first:
  "length p \<le> MAX_PACKET_SIZE \<Longrightarrow> feed_bytes FrameReader_new (frame_payload p @ rest) =
     (case feed_bytes FrameReader_new rest of (r, fs) \<Rightarrow> (r, p # fs))"
  by (simp add: feed_bytes_append split: prod.split)

lemma oversized_header: "feed_bytes FrameReader_new [START1, START2, 0x02, 0x01] = (FrameReader_new, [])"
  by (simp add: feed_def FrameReader_new_def START1_def START2_def MAX_PACKET_SIZE_def frame_len_eq)

lemma feed_each_eq: "feed_each r frames bs = frames @ snd (feed_bytes r bs)"
  by (induction r frames bs rule: feed_each.induct) (auto split: prod.split option.split)

lemma single_frame_tests:
  "test_frame_payload_roundtrip" "test_frame_payload_empty" "test_frame_exact_max_size" "test_start_bytes_inside_payload"
  unfolding test_frame_payload_roundtrip_def test_frame_payload_empty_def test_frame_exact_max_size_def
    test_start_bytes_inside_payload_def
  by (simp_all add: Let_def MAX_PACKET_SIZE_def) (simp add: frame_payload_short)

lemma oversized_header_tests: "test_frame_reader_rejects_oversized" "test_frame_one_over_max"
  unfolding test_frame_reader_rejects_oversized_def test_frame_one_over_max_def
  by (simp_all add: Let_def oversized_header MAX_PACKET_SIZE_def del: feed_bytes.simps(2))

lemma frame_reader_resyncs_on_garbage_passes: "test_frame_reader_resyncs_on_garbage"
proof -
  let ?garbage = "[0xAA, 0xBB, 0xCC, 0xDD, 0x94, 0x00, 0x94] :: bytes"
  have "feed_bytes FrameReader_new ?garbage = (\<lparr>state = WaitStart2, buf = []\<rparr>, [])"
    by (simp add: feed_def FrameReader_new_def START1_def START2_def)
  moreover have "feed_bytes \<lparr>state = WaitStart2, buf = []\<rparr> (frame_payload p) = (FrameReader_new, [p])"
    if "length p \<le> MAX_PACKET_SIZE" for p
    using that by (intro feed_frame) simp_all
  ultimately show ?thesis
    by (simp add: test_frame_reader_resyncs_on_garbage_def Let_def MAX_PACKET_SIZE_def del: feed_bytes.simps(2))
qed

lemma several_frames_tests: "test_frame_reader_multiple_frames" "test_feed_vs_feed_bytes_equivalence"
  unfolding test_frame_reader_multiple_frames_def test_feed_vs_feed_bytes_equivalence_def
  by (simp_all add: Let_def feed_each_eq receives_first MAX_PACKET_SIZE_def split: prod.split)

lemma garbage_between_valid_frames_passes: "test_garbage_between_valid_frames"
proof -
  have "feed_bytes FrameReader_new ([0xFF, 0xFE, 0xFD, 0x94, 0x00] @ rest) = feed_bytes FrameReader_new rest" for rest
    by (simp add: feed_def FrameReader_new_def START1_def START2_def)
  then show ?thesis
    by (simp add: test_garbage_between_valid_frames_def Let_def receives_first MAX_PACKET_SIZE_def
        del: append_Cons feed_bytes.simps(2))
qed

lemma frame_payload_oversized_input_passes: "test_frame_payload_oversized_input"
proof -
  let ?big = "replicate (MAX_PACKET_SIZE + 1) 0xCC :: bytes"
  have "feed_bytes FrameReader_new ?big = (FrameReader_new, [])"
    using noise_ignored [of ?big "[]"] by (simp add: START1_def del: replicate_add)
  then have "feed_bytes FrameReader_new (frame_payload ?big) = (FrameReader_new, [])"
    by (subst feed_frame_oversize) (simp_all add: MAX_PACKET_SIZE_def)
  moreover have "frame_payload ?big ! 2 = 2" and "frame_payload ?big ! 3 = 1"
    by (simp_all add: frame_payload_shape MAX_PACKET_SIZE_def)
  ultimately show ?thesis
    by (simp add: test_frame_payload_oversized_input_def Let_def MAX_PACKET_SIZE_def)
qed

text \<open>Every unit test of the framing module passes on the model: single and several frames, the empty and the
  longest one, start bytes inside a payload, noise before and between frames, and frames that announce or carry
  513 bytes.\<close>

theorem framing_tests_pass:
  "test_frame_payload_roundtrip \<and> test_frame_reader_resyncs_on_garbage \<and> test_frame_reader_rejects_oversized \<and>
   test_frame_reader_multiple_frames \<and> test_frame_payload_empty \<and> test_frame_exact_max_size \<and> test_frame_one_over_max \<and>
   test_start_bytes_inside_payload \<and> test_garbage_between_valid_frames \<and> test_feed_vs_feed_bytes_equivalence \<and>
   test_frame_payload_oversized_input"
  using single_frame_tests oversized_header_tests several_frames_tests frame_reader_resyncs_on_garbage_passes
    garbage_between_valid_frames_passes frame_payload_oversized_input_passes by blast

end
