(* ===== verification/Conformance_Crypto.thy ===== *)
theory Conformance_Crypto
  imports Crypto Recent
begin

text \<open>
  The unit tests of \<open>src/crypto.rs\<close> and those of \<open>RecentPackets\<close> in \<open>src/bridge.rs\<close> as definitions, one for each
  test.  The tests that encrypt are definitions over the block cipher.  Three of them depend on it: they need that
  the keystreams of two packets differ.  They are checked on a cipher that mixes all bytes of the block; it is
  not AES, which is not part of the sources.
\<close>

section \<open>The tests of keys and names\<close>

definition test_expand_psk_empty :: bool where
  "test_expand_psk_empty = (expand_psk [] = [])"

definition test_expand_psk_one_byte_default :: bool where
  "test_expand_psk_one_byte_default =
     (let key = expand_psk [1] in length key = 16 \<and> take 15 key = take 15 DEFAULT_PSK \<and> key ! 15 = 1)"

definition test_expand_psk_one_byte_variant :: bool where
  "test_expand_psk_one_byte_variant = (let key = expand_psk [5] in length key = 16 \<and> key ! 15 = 5)"

definition test_expand_psk_16_bytes :: bool where
  "test_expand_psk_16_bytes = (let psk = replicate 16 0 in expand_psk psk = psk)"

definition test_expand_psk_32_bytes :: bool where
  "test_expand_psk_32_bytes = (let psk = replicate 32 0xAB in expand_psk psk = psk)"

definition test_channel_hash_default :: bool where
  "test_channel_hash_default =
     (let key = expand_psk [1]; hash = channel_hash ''LongFast'' key;
          name_xor = foldl (XOR) (0 :: u8) (as_bytes ''LongFast'');
          key_xor = foldl (XOR) (0 :: u8) key
      in hash = ucast (name_xor XOR key_xor))"

definition test_channel_hash_empty_name :: bool where
  "test_channel_hash_empty_name =
     (let key = expand_psk [1]; hash = channel_hash [] key; key_xor = foldl (XOR) (0 :: u8) key in hash = ucast key_xor)"

definition test_channel_key_from_proto :: bool where
  "test_channel_key_from_proto =
     (let ck = channel_key_from_proto 0 ''LongFast'' [1] in
      ck_index ck = 0 \<and> ck_name ck = ''LongFast'' \<and> length (ck_key ck) = 16 \<and>
      ck_hash ck = channel_hash ''LongFast'' (ck_key ck))"

definition test_channel_display_name :: bool where
  "test_channel_display_name \<longleftrightarrow>
     channel_display_name ''AREDN'' True 0 = ''AREDN'' \<and>
     channel_display_name [] True 0 = ''LongFast'' \<and>
     channel_display_name [] True 4 = ''MediumFast'' \<and>
     channel_display_name [] True 7 = ''LongMod'' \<and>
     channel_display_name [] False 0 = ''Custom''"

definition test_default_longfast_hash_is_8 :: bool where
  "test_default_longfast_hash_is_8 =
     (let name = channel_display_name [] True 0 in ck_hash (channel_key_from_proto 0 name [1]) = 8)"

section \<open>The tests of encryption\<close>

definition test_encrypt_decrypt_roundtrip :: "aes_crate \<Rightarrow> bool" where
  "test_encrypt_decrypt_roundtrip A =
     (let key = expand_psk [1]; plaintext = as_bytes ''Hello Meshtastic!''; from = 0x12345678; packet_id = 0xDEADBEEF;
          ciphertext = encrypt_aes_ctr A key from packet_id plaintext;
          decrypted = decrypt_aes_ctr A key from packet_id ciphertext
      in ciphertext \<noteq> plaintext \<and> length ciphertext = length plaintext \<and> decrypted = plaintext)"

definition test_encrypt_empty_key_passthrough :: "aes_crate \<Rightarrow> bool" where
  "test_encrypt_empty_key_passthrough A =
     (let plaintext = as_bytes ''no crypto''; result = encrypt_aes_ctr A [] 1 2 plaintext in result = plaintext)"

definition test_encrypt_deterministic :: "aes_crate \<Rightarrow> bool" where
  "test_encrypt_deterministic A =
     (let key = expand_psk [1]; plaintext = as_bytes ''test'';
          c1 = encrypt_aes_ctr A key 1 2 plaintext; c2 = encrypt_aes_ctr A key 1 2 plaintext in c1 = c2)"

definition test_different_from_produces_different_ciphertext :: "aes_crate \<Rightarrow> bool" where
  "test_different_from_produces_different_ciphertext A =
     (let key = expand_psk [1]; plaintext = as_bytes ''test'';
          c1 = encrypt_aes_ctr A key 1 100 plaintext; c2 = encrypt_aes_ctr A key 2 100 plaintext in c1 \<noteq> c2)"

definition test_different_id_produces_different_ciphertext :: "aes_crate \<Rightarrow> bool" where
  "test_different_id_produces_different_ciphertext A =
     (let key = expand_psk [1]; plaintext = as_bytes ''test'';
          c1 = encrypt_aes_ctr A key 1 100 plaintext; c2 = encrypt_aes_ctr A key 1 200 plaintext in c1 \<noteq> c2)"

section \<open>The tests of the memory of recent packets\<close>

definition test_recent_packets_eviction :: bool where
  "test_recent_packets_eviction =
     (let (recent, fresh) = fold (\<lambda>i (r, fs). case recent_insert r 1 i of (r', f) \<Rightarrow> (r', fs @ [f]))
            [0, 1, 2, 3, 4] (RecentPackets_new 4, [])
      in list_all id fresh \<and> \<not> recent_contains recent 1 0 \<and> recent_contains recent 1 4 \<and>
         length (order recent) = 4 \<and> card (seen recent) = 4)"

definition test_recent_packets_dedup :: bool where
  "test_recent_packets_dedup =
     (let (r1, a) = recent_insert (RecentPackets_new 4) 1 42;
          (r2, b) = recent_insert r1 1 42;
          (r3, c) = recent_insert r2 2 42
      in a \<and> \<not> b \<and> c \<and> length (order r3) = 2)"

section \<open>They pass\<close>

text \<open>Every byte of a block is the key byte and the XOR of all bytes of the block.\<close>

definition mix_block :: "bytes \<Rightarrow> block16 \<Rightarrow> block16" where
  "mix_block key block = Block16 (map (\<lambda>i. xor_all (block_bytes block) XOR (if i < length key then key ! i else 0)) [0..<16])"

definition mixing_aes :: aes_crate where
  "mixing_aes = \<lparr>aes128 = mix_block, aes256 = mix_block\<rparr>"

lemma block_bytes_mix_block:
  "block_bytes (mix_block key block) =
     map (\<lambda>i. xor_all (block_bytes block) XOR (if i < length key then key ! i else 0)) [0..<16]"
  by (simp add: mix_block_def Block16_inverse)

lemma mixing_first_byte:
  assumes "length key = 16"
  shows "encrypt_aes_ctr mixing_aes key from i (b # bs) ! 0 =
    b XOR xor_all (block_bytes (initial_counter from i)) XOR key ! 0"
  using assms
  by (simp add: encrypt_aes_ctr_def aes_ctr_transform_def encrypt_block_def mixing_aes_def block_bytes_mix_block xor.assoc)

lemma mixing_counter:
  "xor_all (block_bytes (initial_counter from i)) = xor_all (to_le_bytes i) XOR xor_all (to_le_bytes from)"
  by (simp add: initial_counter.rep_eq to_le_bytes_def xor.assoc numeral_eq_Suc)

lemma length_expand_one [simp]: "length (expand_psk [b]) = 16"
  by (simp add: expand_psk_def DEFAULT_PSK_def)

lemma key_tests:
  "test_expand_psk_empty" "test_expand_psk_one_byte_default" "test_expand_psk_one_byte_variant"
  "test_expand_psk_16_bytes" "test_expand_psk_32_bytes"
  by (simp_all add: test_expand_psk_empty_def test_expand_psk_one_byte_default_def test_expand_psk_one_byte_variant_def
      test_expand_psk_16_bytes_def test_expand_psk_32_bytes_def expand_psk_def DEFAULT_PSK_def)

lemma xor_all_default_key [simp]: "xor_all (expand_psk [1]) = 2"
  by (simp add: expand_psk_def DEFAULT_PSK_def)

lemma name_tests:
  "test_channel_hash_default" "test_channel_hash_empty_name" "test_channel_key_from_proto" "test_channel_display_name"
  "test_default_longfast_hash_is_8"
  by (simp_all add: test_channel_hash_default_def test_channel_hash_empty_name_def test_channel_key_from_proto_def
      test_channel_display_name_def test_default_longfast_hash_is_8_def channel_hash_def channel_key_from_proto_def
      channel_display_name_def modem_preset_name_def foldl_xor Let_def)

lemma cipher_tests:
  "test_encrypt_decrypt_roundtrip mixing_aes" "test_encrypt_empty_key_passthrough A" "test_encrypt_deterministic A"
  "test_different_from_produces_different_ciphertext mixing_aes" "test_different_id_produces_different_ciphertext mixing_aes"
proof -
  let ?key = "expand_psk [1]"
  have key0: "?key ! 0 = 0xd4" by (simp add: expand_psk_def DEFAULT_PSK_def)
  have first: "encrypt_aes_ctr mixing_aes ?key f i (b # bs) ! 0 =
      b XOR (xor_all (to_le_bytes i) XOR xor_all (to_le_bytes f)) XOR 0xd4" for f i b bs
    by (simp add: mixing_first_byte mixing_counter key0)
  have "encrypt_aes_ctr mixing_aes ?key 0x12345678 0xDEADBEEF (as_bytes ''Hello Meshtastic!'') ! 0 \<noteq> as_bytes ''Hello Meshtastic!'' ! 0"
    by (simp add: first to_le_bytes_def)
  then show "test_encrypt_decrypt_roundtrip mixing_aes"
    by (auto simp: test_encrypt_decrypt_roundtrip_def Let_def aes_ctr.length_enc aes_ctr.dec_enc)
  have "encrypt_aes_ctr mixing_aes ?key 1 100 (as_bytes ''test'') ! 0 \<noteq> encrypt_aes_ctr mixing_aes ?key 2 100 (as_bytes ''test'') ! 0"
    by (simp add: first to_le_bytes_def)
  then show "test_different_from_produces_different_ciphertext mixing_aes"
    by (auto simp: test_different_from_produces_different_ciphertext_def Let_def)
  have "encrypt_aes_ctr mixing_aes ?key 1 100 (as_bytes ''test'') ! 0 \<noteq> encrypt_aes_ctr mixing_aes ?key 1 200 (as_bytes ''test'') ! 0"
    by (simp add: first to_le_bytes_def)
  then show "test_different_id_produces_different_ciphertext mixing_aes"
    by (auto simp: test_different_id_produces_different_ciphertext_def Let_def)
qed (simp_all add: test_encrypt_empty_key_passthrough_def test_encrypt_deterministic_def encrypt_aes_ctr_def aes_ctr_transform_def)

lemma recent_tests: "test_recent_packets_eviction" "test_recent_packets_dedup"
  by (simp_all add: test_recent_packets_eviction_def test_recent_packets_dedup_def recent_insert_def recent_contains_def
      RecentPackets_new_def)

text \<open>Every unit test of the cryptography module passes on the model, the three that need differing keystreams
  with a cipher that mixes the block, the others with every cipher; and so do the tests of the memory of recent
  packets.\<close>

theorem crypto_tests_pass:
  "test_expand_psk_empty \<and> test_expand_psk_one_byte_default \<and> test_expand_psk_one_byte_variant \<and>
   test_expand_psk_16_bytes \<and> test_expand_psk_32_bytes \<and> test_channel_hash_default \<and> test_channel_hash_empty_name \<and>
   test_encrypt_decrypt_roundtrip mixing_aes \<and> test_encrypt_empty_key_passthrough A \<and> test_encrypt_deterministic A \<and>
   test_different_from_produces_different_ciphertext mixing_aes \<and>
   test_different_id_produces_different_ciphertext mixing_aes \<and>
   test_channel_key_from_proto \<and> test_channel_display_name \<and> test_default_longfast_hash_is_8 \<and>
   test_recent_packets_eviction \<and> test_recent_packets_dedup"
  using key_tests name_tests cipher_tests recent_tests by blast

end
