(* ===== verification/Conformance_Raven.thy ===== *)
theory Conformance_Raven
  imports Raven
begin

text \<open>
  The unit tests of \<open>src/raven.rs\<close> as definitions, one for each test.  The files the tests write are given by
  the JSON values of their contents, base64 by a decoder for the standard alphabet with padding, and the derived
  deserialisation of the configuration by what its two structs say.
\<close>

section \<open>The environment of the tests\<close>

definition base64_value :: "char \<Rightarrow> nat option" where
  "base64_value c = position (\<lambda>d. d = c) ''ABCDEFGHIJKLMNOPQRSTUVWXYZabcdefghijklmnopqrstuvwxyz0123456789+/''"

definition base64_group :: "nat \<Rightarrow> nat \<Rightarrow> nat \<Rightarrow> nat \<Rightarrow> bytes" where
  "base64_group a b c d = [of_nat (4 * a + b div 16), of_nat (16 * (b mod 16) + c div 4), of_nat (64 * (c mod 4) + d)]"

fun decode_base64 :: "string \<Rightarrow> string + bytes" where
  "decode_base64 [] = Inr []"
| "decode_base64 (a # b # c # d # s) =
     (case (base64_value a, base64_value b, base64_value c, base64_value d) of
        (Some va, Some vb, Some vc, Some vd) \<Rightarrow> bind_result (decode_base64 s) (\<lambda>bs. Inr (base64_group va vb vc vd @ bs))
      | (Some va, Some vb, Some vc, None) \<Rightarrow>
          if d = CHR ''='' \<and> s = [] \<and> vc mod 4 = 0 then Inr (take 2 (base64_group va vb vc 0)) else Inl ''invalid base64''
      | (Some va, Some vb, None, None) \<Rightarrow>
          if c = CHR ''='' \<and> d = CHR ''='' \<and> s = [] \<and> vb mod 16 = 0 then Inr (take 1 (base64_group va vb 0 0)) else Inl ''invalid base64''
      | _ \<Rightarrow> Inl ''invalid base64'')"
| "decode_base64 _ = Inl ''invalid base64''"

fun channel_namekey :: "json \<Rightarrow> string + string" where
  "channel_namekey (Json_object m) = (case map_of m ''namekey'' of
     Some (Json_string s) \<Rightarrow> Inr s | Some _ \<Rightarrow> Inl ''invalid type'' | None \<Rightarrow> Inl ''missing field namekey'')"
| "channel_namekey (Json_array [Json_string s]) = Inr s"
| "channel_namekey _ = Inl ''invalid type''"

fun channel_namekeys :: "json list \<Rightarrow> string + string list" where
  "channel_namekeys [] = Inr []"
| "channel_namekeys (ch # chs) = bind_result (channel_namekey ch) (\<lambda>nk. bind_result (channel_namekeys chs) (\<lambda>nks. Inr (nk # nks)))"

fun config_namekeys :: "json \<Rightarrow> string + string list" where
  "config_namekeys (Json_object m) = (case map_of m ''channels'' of
     None \<Rightarrow> Inr [] | Some (Json_array chs) \<Rightarrow> channel_namekeys chs | Some _ \<Rightarrow> Inl ''invalid type'')"
| "config_namekeys (Json_array []) = Inr []"
| "config_namekeys (Json_array [Json_array chs]) = channel_namekeys chs"
| "config_namekeys _ = Inl ''invalid type''"

text \<open>A file by its path; its content is \<open>None\<close> if it is not JSON.\<close>

definition test_env :: "(string \<times> json option) list \<Rightarrow> raven_env" where
  "test_env files =
     \<lparr>read_to_string = (\<lambda>path. if map_of files path = None then Inl (Io_error NotFound ''no such file'') else Inr path),
      json_from_str = (\<lambda>content. case map_of files content of Some (Some j) \<Rightarrow> Inr j | _ \<Rightarrow> Inl ''expected ident''),
      namekeys = config_namekeys, base64_decode = decode_base64\<rparr>"

definition namekey_object :: "string \<Rightarrow> json" where
  "namekey_object nk = Json_object [(''namekey'', Json_string nk)]"

definition bridged_namekey :: "string \<Rightarrow> json" where
  "bridged_namekey nk = Json_object
     [(''meshtastic'', Json_bool True), (''namekey'', Json_string nk), (''telemetry'', Json_bool True)]"

definition SAMPLE_RAVEN_CONF :: json where
  "SAMPLE_RAVEN_CONF = Json_object
     [(''channels'', Json_array
        [bridged_namekey ''AREDN og=='', bridged_namekey ''LongFast AQ=='',
         namekey_object ''MeshCore izOH6cXN6mrJ5e26oRXNcg=='', bridged_namekey ''OK-WX Uw=='',
         bridged_namekey ''PMesh DcYgnMhTKG64bXt+n8gLCzK57IpEhRnhYwpL4xowu9Y='']),
      (''debug'', Json_number ''0''), (''role'', Json_string ''client_mute'')]"

section \<open>The tests of namekeys and loading\<close>

definition load_raven_channels_from :: "raven_env \<Rightarrow> string \<Rightarrow> parsed_raven_channel list option io_result" where
  "load_raven_channels_from E path = load_raven_channels_with_override E path ''/nonexistent-no-override''"

definition test_parse_namekey_simple :: bool where
  "test_parse_namekey_simple =
     (case parse_namekey (test_env []) ''LongFast AQ=='' of
        Inr parsed \<Rightarrow> rc_name parsed = ''LongFast'' \<and> rc_psk parsed = [0x01] | Inl _ \<Rightarrow> False)"

definition test_parse_namekey_16_byte_psk :: bool where
  "test_parse_namekey_16_byte_psk =
     (case parse_namekey (test_env []) ''MeshCore izOH6cXN6mrJ5e26oRXNcg=='' of
        Inr parsed \<Rightarrow> rc_name parsed = ''MeshCore'' \<and> length (rc_psk parsed) = 16 | Inl _ \<Rightarrow> False)"

definition test_parse_namekey_32_byte_psk :: bool where
  "test_parse_namekey_32_byte_psk =
     (case parse_namekey (test_env []) ''PMesh DcYgnMhTKG64bXt+n8gLCzK57IpEhRnhYwpL4xowu9Y='' of
        Inr parsed \<Rightarrow> rc_name parsed = ''PMesh'' \<and> length (rc_psk parsed) = 32 | Inl _ \<Rightarrow> False)"

definition test_parse_namekey_short_psk :: bool where
  "test_parse_namekey_short_psk =
     (case parse_namekey (test_env []) ''AREDN og=='' of
        Inr parsed \<Rightarrow> rc_name parsed = ''AREDN'' \<and> rc_psk parsed = [0xa2] | Inl _ \<Rightarrow> False)"

definition test_parse_namekey_no_space :: bool where
  "test_parse_namekey_no_space = isl (parse_namekey (test_env []) ''nospace'')"

definition test_parse_namekey_invalid_base64 :: bool where
  "test_parse_namekey_invalid_base64 = isl (parse_namekey (test_env []) ''name !!!invalid!!!'')"

definition test_load_raven_channels_missing_file :: bool where
  "test_load_raven_channels_missing_file =
     (load_raven_channels_from (test_env []) ''/nonexistent/raven.conf'' = Inr None)"

definition test_load_raven_channels_valid :: bool where
  "test_load_raven_channels_valid =
     (case load_raven_channels_from (test_env [(''tmp'', Some SAMPLE_RAVEN_CONF)]) ''tmp'' of
        Inr (Some channels) \<Rightarrow>
          length channels = 5 \<and> rc_name (channels ! 0) = ''AREDN'' \<and> rc_name (channels ! 1) = ''LongFast'' \<and>
          rc_name (channels ! 2) = ''MeshCore'' \<and> rc_name (channels ! 3) = ''OK-WX'' \<and> rc_name (channels ! 4) = ''PMesh''
      | _ \<Rightarrow> False)"

definition test_load_raven_channels_invalid_json :: bool where
  "test_load_raven_channels_invalid_json = isl (load_raven_channels_from (test_env [(''tmp'', None)]) ''tmp'')"

section \<open>The tests of the channel merge\<close>

definition test_merge_no_raven :: "'x proto \<Rightarrow> bool" where
  "test_merge_no_raven P =
     (let device = [channel_key_from_proto 0 ''LongFast'' [1]]; result = merge_channels P device [] 0
      in length (mr_channels result) = 1 \<and> mr_to_install result = [])"

definition test_merge_duplicate_same_psk :: "'x proto \<Rightarrow> bool" where
  "test_merge_duplicate_same_psk P =
     (let device = [channel_key_from_proto 0 ''LongFast'' [1]];
          raven = [\<lparr>rc_name = ''LongFast'', rc_psk = [1]\<rparr>];
          result = merge_channels P device raven 0
      in length (mr_channels result) = 1 \<and> mr_to_install result = [])"

definition test_merge_duplicate_different_psk :: "'x proto \<Rightarrow> bool" where
  "test_merge_duplicate_different_psk P =
     (let device = [channel_key_from_proto 0 ''LongFast'' [1]];
          raven = [\<lparr>rc_name = ''LongFast'', rc_psk = [2]\<rparr>];
          result = merge_channels P device raven 0
      in length (mr_channels result) = 1 \<and> length (mr_to_install result) = 1 \<and>
         ch_index (mr_to_install result ! 0) = 0 \<and> ch_role (mr_to_install result ! 0) = 1)"

definition test_merge_new_channel :: "'x proto \<Rightarrow> bool" where
  "test_merge_new_channel P =
     (let device = [channel_key_from_proto 0 ''LongFast'' [1]];
          raven = [\<lparr>rc_name = ''AREDN'', rc_psk = [0xa2]\<rparr>];
          result = merge_channels P device raven 0
      in length (mr_channels result) = 2 \<and> ck_name (mr_channels result ! 1) = ''AREDN'' \<and>
         ck_index (mr_channels result ! 1) = 1 \<and> length (mr_to_install result) = 1 \<and>
         ch_index (mr_to_install result ! 0) = 1 \<and> ch_role (mr_to_install result ! 0) = 2)"

definition test_merge_mixed :: "'x proto \<Rightarrow> bool" where
  "test_merge_mixed P =
     (let device = [channel_key_from_proto 0 ''LongFast'' [1], channel_key_from_proto 1 ''AREDN'' [0xa2]];
          raven = [\<lparr>rc_name = ''AREDN'', rc_psk = [0xa3]\<rparr>, \<lparr>rc_name = ''NewChan'', rc_psk = [5]\<rparr>];
          result = merge_channels P device raven 0
      in length (mr_channels result) = 3 \<and>
         ck_name (mr_channels result ! 1) = ''AREDN'' \<and> ck_index (mr_channels result ! 1) = 1 \<and>
         ck_name (mr_channels result ! 2) = ''NewChan'' \<and> ck_index (mr_channels result ! 2) = 2 \<and>
         length (mr_to_install result) = 2)"

definition test_merge_empty_name_primary_matches_preset :: "'x proto \<Rightarrow> bool" where
  "test_merge_empty_name_primary_matches_preset P =
     (let device = [channel_key_from_proto 0 [] [1]];
          raven = [\<lparr>rc_name = ''LongFast'', rc_psk = [1]\<rparr>];
          result = merge_channels P device raven 0
      in length (mr_channels result) = 1 \<and> mr_to_install result = [])"

definition test_merge_same_psk_keeps_correct_hash :: "'x proto \<Rightarrow> bool" where
  "test_merge_same_psk_keeps_correct_hash P =
     (let device = [channel_key_from_proto 0 ''LongFast'' [1]];
          raven = [\<lparr>rc_name = ''LongFast'', rc_psk = [1]\<rparr>];
          result = merge_channels P device raven 0
      in length (mr_channels result) = 1 \<and> mr_to_install result = [] \<and> ck_hash (mr_channels result ! 0) = 8)"

definition test_merge_empty_name_primary_wrong_preset_no_match :: "'x proto \<Rightarrow> bool" where
  "test_merge_empty_name_primary_wrong_preset_no_match P =
     (let device = [channel_key_from_proto 0 [] [1]];
          raven = [\<lparr>rc_name = ''LongFast'', rc_psk = [1]\<rparr>];
          result = merge_channels P device raven 6
      in length (mr_channels result) = 2 \<and> length (mr_to_install result) = 1)"

section \<open>The tests of the deep merge\<close>

text \<open>\<open>value.get(key)\<close>, and \<open>value[key]\<close>, which is \<open>null\<close> where there is none.\<close>

fun json_get :: "json \<Rightarrow> string \<Rightarrow> json option" where
  "json_get (Json_object m) k = map_of m k"
| "json_get _ k = None"

definition json_at :: "json \<Rightarrow> string \<Rightarrow> json" where
  "json_at j k = (case json_get j k of Some v \<Rightarrow> v | None \<Rightarrow> Json_null)"

definition test_deep_merge_replaces_array :: bool where
  "test_deep_merge_replaces_array =
     (let base = Json_object [(''channels'', Json_array [namekey_object ''A aa=='', namekey_object ''B bb==''])];
          over = Json_object [(''channels'', Json_array [namekey_object ''C cc==''])];
          base = deep_merge base over
      in case json_at base ''channels'' of
           Json_array arr \<Rightarrow> length arr = 1 \<and> json_at (arr ! 0) ''namekey'' = Json_string ''C cc==''
         | _ \<Rightarrow> False)"

definition test_deep_merge_null_deletes_key :: bool where
  "test_deep_merge_null_deletes_key =
     (let base = Json_object [(''debug'', Json_number ''1''), (''role'', Json_string ''client_mute'')];
          over = Json_object [(''debug'', Json_null)];
          base = deep_merge base over
      in json_get base ''debug'' = None \<and> json_at base ''role'' = Json_string ''client_mute'')"

definition test_deep_merge_objects_recurse :: bool where
  "test_deep_merge_objects_recurse =
     (let base = Json_object [(''meshtastic'',
            Json_object [(''address'', Json_string ''127.0.0.1''), (''port'', Json_number ''4403'')])];
          over = Json_object [(''meshtastic'', Json_object [(''port'', Json_number ''9999'')])];
          base = deep_merge base over
      in json_at (json_at base ''meshtastic'') ''address'' = Json_string ''127.0.0.1'' \<and>
         json_at (json_at base ''meshtastic'') ''port'' = Json_number ''9999'')"

definition test_deep_merge_empty_override :: bool where
  "test_deep_merge_empty_override =
     (let base = Json_object [(''debug'', Json_number ''0''), (''role'', Json_string ''client_mute'')];
          over = Json_object [];
          base = deep_merge base over
      in json_at base ''debug'' = Json_number ''0'' \<and> json_at base ''role'' = Json_string ''client_mute'')"

definition test_deep_merge_adds_new_key :: bool where
  "test_deep_merge_adds_new_key =
     (let base = Json_object [(''debug'', Json_number ''0'')];
          over = Json_object [(''newkey'', Json_string ''value'')];
          base = deep_merge base over
      in json_at base ''debug'' = Json_number ''0'' \<and> json_at base ''newkey'' = Json_string ''value'')"

definition test_deep_merge_new_nested_object :: bool where
  "test_deep_merge_new_nested_object =
     (let base = Json_object [(''debug'', Json_number ''0'')];
          over = Json_object [(''meshtastic'', Json_object [(''address'', Json_string ''10.0.0.1'')])];
          base = deep_merge base over
      in json_at (json_at base ''meshtastic'') ''address'' = Json_string ''10.0.0.1'')"

section \<open>The tests of the override file\<close>

definition test_load_with_override_missing_override :: bool where
  "test_load_with_override_missing_override =
     (case load_raven_channels_with_override (test_env [(''base'', Some SAMPLE_RAVEN_CONF)])
         ''base'' ''/nonexistent/raven.conf.override'' of
        Inr (Some channels) \<Rightarrow> length channels = 5 | _ \<Rightarrow> False)"

definition test_load_with_override_replaces_channels :: bool where
  "test_load_with_override_replaces_channels =
     (let over = Json_object [(''channels'', Json_array
            [namekey_object ''AREDN og=='', namekey_object ''LongFast AQ=='',
             namekey_object ''MeshCore izOH6cXN6mrJ5e26oRXNcg=='', namekey_object ''OK-WX Uw=='',
             namekey_object ''PMesh DcYgnMhTKG64bXt+n8gLCzK57IpEhRnhYwpL4xowu9Y='', namekey_object ''OK-Wide oA==''])]
      in case load_raven_channels_with_override (test_env [(''base'', Some SAMPLE_RAVEN_CONF), (''over'', Some over)])
           ''base'' ''over'' of
           Inr (Some channels) \<Rightarrow>
             length channels = 6 \<and> rc_name (channels ! 5) = ''OK-Wide'' \<and> rc_psk (channels ! 5) = [0xa0]
         | _ \<Rightarrow> False)"

definition test_load_with_override_empty_object :: bool where
  "test_load_with_override_empty_object =
     (case load_raven_channels_with_override
         (test_env [(''base'', Some SAMPLE_RAVEN_CONF), (''over'', Some (Json_object []))]) ''base'' ''over'' of
        Inr (Some channels) \<Rightarrow> length channels = 5 | _ \<Rightarrow> False)"

definition test_load_with_override_non_object_ignored :: bool where
  "test_load_with_override_non_object_ignored =
     (case load_raven_channels_with_override
         (test_env [(''base'', Some SAMPLE_RAVEN_CONF), (''over'', Some (Json_array []))]) ''base'' ''over'' of
        Inr (Some channels) \<Rightarrow> length channels = 5 | _ \<Rightarrow> False)"

definition test_load_with_override_invalid_json :: bool where
  "test_load_with_override_invalid_json =
     isl (load_raven_channels_with_override (test_env [(''base'', Some SAMPLE_RAVEN_CONF), (''over'', None)]) ''base'' ''over'')"

section \<open>They pass\<close>

lemma decode_base64_samples [simp]:
  "decode_base64 ''AQ=='' = Inr [0x01]" "decode_base64 ''og=='' = Inr [0xa2]" "decode_base64 ''oA=='' = Inr [0xa0]"
  "decode_base64 ''Uw=='' = Inr [0x53]"
  "decode_base64 ''izOH6cXN6mrJ5e26oRXNcg=='' =
     Inr [0x8b, 0x33, 0x87, 0xe9, 0xc5, 0xcd, 0xea, 0x6a, 0xc9, 0xe5, 0xed, 0xba, 0xa1, 0x15, 0xcd, 0x72]"
  "isl (decode_base64 ''!!!invalid!!!'')"
  by (simp_all add: base64_value_def base64_group_def)

lemma decode_base64_long [simp]:
  "decode_base64 ''DcYgnMhTKG64bXt+n8gLCzK57IpEhRnhYwpL4xowu9Y='' =
     Inr [0x0d, 0xc6, 0x20, 0x9c, 0xc8, 0x53, 0x28, 0x6e, 0xb8, 0x6d, 0x7b, 0x7e, 0x9f, 0xc8, 0x0b, 0x0b,
          0x32, 0xb9, 0xec, 0x8a, 0x44, 0x85, 0x19, 0xe1, 0x63, 0x0a, 0x4b, 0xe3, 0x1a, 0x30, 0xbb, 0xd6]"
  by (simp add: base64_value_def base64_group_def)

lemma test_env_simps [simp]:
  "base64_decode (test_env files) = decode_base64" "namekeys (test_env files) = config_namekeys"
  "read_to_string (test_env files) path =
     (if map_of files path = None then Inl (Io_error NotFound ''no such file'') else Inr path)"
  "json_from_str (test_env files) path = (case map_of files path of Some (Some j) \<Rightarrow> Inr j | _ \<Rightarrow> Inl ''expected ident'')"
  by (simp_all add: test_env_def)

lemma parse_namekey_samples [simp]:
  "parse_namekey (test_env files) ''LongFast AQ=='' = Inr \<lparr>rc_name = ''LongFast'', rc_psk = [0x01]\<rparr>"
  "parse_namekey (test_env files) ''AREDN og=='' = Inr \<lparr>rc_name = ''AREDN'', rc_psk = [0xa2]\<rparr>"
  "parse_namekey (test_env files) ''OK-Wide oA=='' = Inr \<lparr>rc_name = ''OK-Wide'', rc_psk = [0xa0]\<rparr>"
  "parse_namekey (test_env files) ''OK-WX Uw=='' = Inr \<lparr>rc_name = ''OK-WX'', rc_psk = [0x53]\<rparr>"
  "parse_namekey (test_env files) ''MeshCore izOH6cXN6mrJ5e26oRXNcg=='' = Inr \<lparr>rc_name = ''MeshCore'', rc_psk =
     [0x8b, 0x33, 0x87, 0xe9, 0xc5, 0xcd, 0xea, 0x6a, 0xc9, 0xe5, 0xed, 0xba, 0xa1, 0x15, 0xcd, 0x72]\<rparr>"
  "parse_namekey (test_env files) ''PMesh DcYgnMhTKG64bXt+n8gLCzK57IpEhRnhYwpL4xowu9Y='' = Inr \<lparr>rc_name = ''PMesh'', rc_psk =
     [0x0d, 0xc6, 0x20, 0x9c, 0xc8, 0x53, 0x28, 0x6e, 0xb8, 0x6d, 0x7b, 0x7e, 0x9f, 0xc8, 0x0b, 0x0b,
      0x32, 0xb9, 0xec, 0x8a, 0x44, 0x85, 0x19, 0xe1, 0x63, 0x0a, 0x4b, 0xe3, 0x1a, 0x30, 0xbb, 0xd6]\<rparr>"
  by (simp_all add: parse_namekey_def rsplit_once_space_def del: decode_base64.simps)

lemma namekey_tests:
  "test_parse_namekey_simple" "test_parse_namekey_16_byte_psk" "test_parse_namekey_32_byte_psk"
  "test_parse_namekey_short_psk" "test_parse_namekey_no_space"
  by (simp_all add: test_parse_namekey_simple_def test_parse_namekey_16_byte_psk_def test_parse_namekey_32_byte_psk_def
      test_parse_namekey_short_psk_def test_parse_namekey_no_space_def)
    (simp add: parse_namekey_def rsplit_once_space_def)

lemma invalid_base64_passes: "test_parse_namekey_invalid_base64"
  using decode_base64_samples(6)
  by (auto simp: test_parse_namekey_invalid_base64_def parse_namekey_def rsplit_once_space_def isl_def simp del: decode_base64.simps)

lemma channel_namekey_made [simp]:
  "channel_namekey (namekey_object nk) = Inr nk" "channel_namekey (bridged_namekey nk) = Inr nk"
  by (simp_all add: namekey_object_def bridged_namekey_def)

lemma config_namekeys_sample:
  "config_namekeys SAMPLE_RAVEN_CONF = Inr [''AREDN og=='', ''LongFast AQ=='', ''MeshCore izOH6cXN6mrJ5e26oRXNcg=='',
     ''OK-WX Uw=='', ''PMesh DcYgnMhTKG64bXt+n8gLCzK57IpEhRnhYwpL4xowu9Y='']"
  by (simp add: SAMPLE_RAVEN_CONF_def)

lemma load_tests:
  "test_load_raven_channels_missing_file" "test_load_raven_channels_valid" "test_load_raven_channels_invalid_json"
  "test_load_with_override_missing_override" "test_load_with_override_non_object_ignored" "test_load_with_override_invalid_json"
  by (simp_all add: test_load_raven_channels_missing_file_def test_load_raven_channels_valid_def
      test_load_raven_channels_invalid_json_def test_load_with_override_missing_override_def
      test_load_with_override_non_object_ignored_def test_load_with_override_invalid_json_def
      load_raven_channels_from_def load_raven_channels_with_override_def invalid_data_def config_namekeys_sample)

lemma override_tests: "test_load_with_override_replaces_channels" "test_load_with_override_empty_object"
proof -
  show "test_load_with_override_replaces_channels"
    by (simp add: test_load_with_override_replaces_channels_def load_raven_channels_with_override_def invalid_data_def
        SAMPLE_RAVEN_CONF_def)
  show "test_load_with_override_empty_object"
    by (simp add: test_load_with_override_empty_object_def load_raven_channels_with_override_def invalid_data_def
        SAMPLE_RAVEN_CONF_def)
qed

lemma key_facts [simp]:
  "expand_psk [1] \<noteq> expand_psk [2]" "expand_psk [2] \<noteq> expand_psk [1]"
  "expand_psk [0xa2] \<noteq> expand_psk [0xa3]"
  by (simp_all add: expand_psk_def DEFAULT_PSK_def)

lemma merge_tests:
  "test_merge_no_raven P" "test_merge_duplicate_same_psk P" "test_merge_duplicate_different_psk P" "test_merge_new_channel P"
  "test_merge_mixed P" "test_merge_empty_name_primary_matches_preset P" "test_merge_empty_name_primary_wrong_preset_no_match P"
  by (simp_all add: test_merge_no_raven_def test_merge_duplicate_same_psk_def test_merge_duplicate_different_psk_def
      test_merge_new_channel_def test_merge_mixed_def test_merge_empty_name_primary_matches_preset_def
      test_merge_empty_name_primary_wrong_preset_no_match_def merge_channels_def merge_one_def effective_def max_index_of_def
      make_channel_proto_def modem_preset_name_def Let_def)

lemma same_psk_keeps_hash_passes: "test_merge_same_psk_keeps_correct_hash P"
  by (simp add: test_merge_same_psk_keeps_correct_hash_def merge_channels_def merge_one_def effective_def max_index_of_def Let_def)
    (simp add: channel_key_from_proto_def channel_hash_def expand_psk_def DEFAULT_PSK_def)

lemma deep_merge_tests:
  "test_deep_merge_replaces_array" "test_deep_merge_null_deletes_key" "test_deep_merge_objects_recurse"
  "test_deep_merge_empty_override" "test_deep_merge_adds_new_key" "test_deep_merge_new_nested_object"
  by (simp_all add: test_deep_merge_replaces_array_def test_deep_merge_null_deletes_key_def test_deep_merge_objects_recurse_def
      test_deep_merge_empty_override_def test_deep_merge_adds_new_key_def test_deep_merge_new_nested_object_def
      json_at_def entry_object_def obj_remove_def namekey_object_def)

text \<open>Every unit test of the Raven module passes on the model: namekeys of every key length and malformed ones,
  loading with and without an override, the deep merge, and the channel merge in every situation, a nameless primary
  channel included.\<close>

theorem raven_tests_pass:
  "test_parse_namekey_simple \<and> test_parse_namekey_16_byte_psk \<and> test_parse_namekey_32_byte_psk \<and>
   test_parse_namekey_short_psk \<and> test_parse_namekey_no_space \<and> test_parse_namekey_invalid_base64 \<and>
   test_load_raven_channels_missing_file \<and> test_load_raven_channels_valid \<and> test_load_raven_channels_invalid_json \<and>
   test_merge_no_raven P \<and> test_merge_duplicate_same_psk P \<and> test_merge_duplicate_different_psk P \<and>
   test_merge_new_channel P \<and> test_merge_mixed P \<and> test_merge_empty_name_primary_matches_preset P \<and>
   test_merge_same_psk_keeps_correct_hash P \<and> test_merge_empty_name_primary_wrong_preset_no_match P \<and>
   test_deep_merge_replaces_array \<and> test_deep_merge_null_deletes_key \<and> test_deep_merge_objects_recurse \<and>
   test_deep_merge_empty_override \<and> test_deep_merge_adds_new_key \<and> test_deep_merge_new_nested_object \<and>
   test_load_with_override_missing_override \<and> test_load_with_override_replaces_channels \<and>
   test_load_with_override_empty_object \<and> test_load_with_override_non_object_ignored \<and>
   test_load_with_override_invalid_json"
  using namekey_tests invalid_base64_passes load_tests override_tests merge_tests same_psk_keeps_hash_passes deep_merge_tests
  by blast

end
