(* ===== verification/Conformance_Serial.thy ===== *)
theory Conformance_Serial
  imports Exchange Mock
begin

text \<open>
  The unit tests of \<open>src/serial.rs\<close> and \<open>src/udp.rs\<close> as definitions, one for each test, on the full-width codec of
  theory \<open>Wire\<close>.  A test that runs the handshake in a thread of its own and injects bytes into the mock port is the
  handshake on the inputs that result: what the test has injected arrives byte by byte at one instant.
\<close>

section \<open>The mock port and helpers\<close>

text \<open>Reads of the mock port into a buffer of \<open>n\<close> bytes, one at each instant.\<close>

fun mock_reads :: "nat \<Rightarrow> bytes \<Rightarrow> nat list \<Rightarrow> (nat \<times> read_outcome) list" where
  "mock_reads n read_buf [] = []"
| "mock_reads n read_buf (now # nows) = (case mock_read n read_buf of
     (outcome, read_buf') \<Rightarrow> (now, outcome) # mock_reads n read_buf' nows)"

definition make_mesh_packet :: "u32 \<Rightarrow> hops mesh_packet" where
  "make_mesh_packet i =
     (mesh_packet_default wire_proto)\<lparr>mp_id := i, mp_from := 0x1234, mp_to := 0xFFFFFFFF, mp_channel := 0\<rparr>"

definition decode_mesh :: "'x proto \<Rightarrow> bytes \<Rightarrow> 'x mesh_packet option" where
  "decode_mesh P payload = (case decode_frame P payload of Packet p \<Rightarrow> Some p | _ \<Rightarrow> None)"

definition test_channel :: "i32 \<Rightarrow> i32 \<Rightarrow> string \<Rightarrow> bytes \<Rightarrow> hops channel" where
  "test_channel index role name psk = \<lparr>ch_index = index, ch_role = role,
     ch_settings = Some ((channel_settings_default wire_proto)\<lparr>cs_name := name, cs_psk := psk\<rparr>)\<rparr>"

text \<open>The request number in what the handshake has written, as \<open>wait_for_want_config\<close> finds it.\<close>

definition want_config_in :: "bytes \<Rightarrow> u32 option" where
  "want_config_in written = (case snd (feed_bytes FrameReader_new written) of
     [] \<Rightarrow> None
   | frame # _ \<Rightarrow> (case unwire_to_radio frame of Some (To_want_config_id i) \<Rightarrow> Some i | _ \<Rightarrow> None))"

definition inject :: "nat \<Rightarrow> hops from_radio_variant \<Rightarrow> hs_input list" where
  "inject now v = map (byte_input now) (frame_payload (radio_says v))"

definition test_handshake :: "u32 \<Rightarrow> nat \<Rightarrow> hs_input list \<Rightarrow> bytes list \<times> hops radio_info io_result option" where
  "test_handshake config_id timeout is = handshake_with_timeout wire_proto config_id timeout None 0 is"

section \<open>The tests of frames and channels\<close>

definition test_channel_keys_use_preset_name :: bool where
  "test_channel_keys_use_preset_name =
     (let info = \<lparr>ri_my_node_num = 1, ri_modem_preset = 0, ri_use_preset = True, ri_region = 1,
            ri_channels = [test_channel 0 1 [] [1], test_channel 1 2 ''AREDN'' [0x82]], ri_mqtt = None\<rparr>;
          keys = channel_keys info
      in ck_name (keys ! 0) = ''LongFast'' \<and> ck_hash (keys ! 0) = 8 \<and>
         ck_name (keys ! 1) = ''AREDN'' \<and> ck_index (keys ! 1) = 1)"

definition test_wait_for_reboot :: bool where
  "test_wait_for_reboot =
     (let data = [0x00, 0xFF] @ as_bytes ''boot log text'' @ [0x0D, 0x0A] @ frame_payload (radio_says (From_rebooted True))
      in wait_for_reboot wire_proto 0 2000 (mock_reads 256 data [0, 100]) = Some (Inr True))"

definition test_wait_for_reboot_timeout :: bool where
  "test_wait_for_reboot_timeout =
     (wait_for_reboot wire_proto 0 300 (mock_reads 256 [] [0, 100, 200, 300]) = Some (Inr False))"

definition test_decode_frame_rebooted :: bool where
  "test_decode_frame_rebooted = (decode_frame wire_proto (radio_says (From_rebooted True)) = Rebooted)"

definition test_decode_packet_valid :: bool where
  "test_decode_packet_valid = (case decode_mesh wire_proto (radio_says (From_packet (make_mesh_packet 42))) of
     Some decoded \<Rightarrow> mp_id decoded = 42 \<and> mp_from decoded = 0x1234 \<and> mp_to decoded = 0xFFFFFFFF
   | None \<Rightarrow> False)"

definition test_decode_packet_non_packet_variant :: bool where
  "test_decode_packet_non_packet_variant = (decode_mesh wire_proto (radio_says (From_config_complete_id 123)) = None)"

definition test_decode_packet_empty_payload :: bool where
  "test_decode_packet_empty_payload = (decode_mesh wire_proto (wire_from_radio \<lparr>fr_id = 0, fr_payload_variant = None\<rparr>) = None)"

definition test_decode_packet_malformed :: "'x proto \<Rightarrow> bool" where
  "test_decode_packet_malformed P \<longleftrightarrow> decode_mesh P [0xFF, 0xFE, 0xFD, 0xFC] = None \<and> decode_mesh P [] = None"

definition test_write_packet_roundtrip :: bool where
  "test_write_packet_roundtrip =
     (let packet = make_mesh_packet 0xDEAD;
          written = write_packet wire_proto packet;
          (reader, frames) = feed_bytes FrameReader_new written
      in 4 \<le> length written \<and> written ! 0 = 0x94 \<and> written ! 1 = 0xC3 \<and> length frames = 1 \<and>
         (case unwire_to_radio (frames ! 0) of
            Some (To_packet p) \<Rightarrow> mp_id p = 0xDEAD \<and> mp_from p = 0x1234 \<and> mp_to p = 0xFFFFFFFF
          | _ \<Rightarrow> False))"

section \<open>The tests of the handshake\<close>

text \<open>The number of the request is drawn at random: the tests are to pass for each.\<close>

definition test_handshake_success :: "u32 \<Rightarrow> bool" where
  "test_handshake_success random =
     (let written = concat (fst (test_handshake random 5000 []));
          (reader, frames) = feed_bytes FrameReader_new written
      in written \<noteq> [] \<and> length frames = 1 \<and>
         (case unwire_to_radio (frames ! 0) of
            Some (To_want_config_id config_id) \<Rightarrow>
              (case snd (test_handshake random 5000
                  (inject 50 (From_my_info 0xABCD (0, 0)) @ inject 50 (From_config_complete_id config_id))) of
                 Some (Inr info) \<Rightarrow> True | _ \<Rightarrow> False)
          | _ \<Rightarrow> False))"

definition test_handshake_ignores_non_config :: "u32 \<Rightarrow> bool" where
  "test_handshake_ignores_non_config random =
     (let written = concat (fst (test_handshake random 5000 []))
      in written \<noteq> [] \<and>
         (case want_config_in written of
            Some config_id \<Rightarrow>
              (case snd (test_handshake random 5000
                  (inject 50 (From_packet (make_mesh_packet 99)) @ inject 50 (From_my_info 0xABCD (0, 0)) @
                   inject 150 (From_config_complete_id config_id))) of
                 Some (Inr info) \<Rightarrow> True | _ \<Rightarrow> False)
          | None \<Rightarrow> False))"

definition test_handshake_resends_after_reboot :: "u32 \<Rightarrow> bool" where
  "test_handshake_resends_after_reboot random =
     (let before = fst (test_handshake random 5000 []);
          rebooted = inject 50 (From_my_info 0x1111 (0, 0)) @ inject 50 (From_rebooted True);
          written = fst (test_handshake random 5000 rebooted)
      in case (want_config_in (concat before), want_config_in (concat (drop (length before) written))) of
           (Some first, Some second) \<Rightarrow>
             first = second \<and>
             (case snd (test_handshake random 5000
                 (rebooted @ inject 100 (From_my_info 0xABCD (0, 0)) @ inject 100 (From_config_complete_id second))) of
                Some (Inr info) \<Rightarrow> ri_my_node_num info = 0xABCD | _ \<Rightarrow> False)
         | _ \<Rightarrow> False)"

definition test_handshake_timeout :: "u32 \<Rightarrow> bool" where
  "test_handshake_timeout random =
     (case snd (test_handshake random 1000 (map quiet_input [0, 500, 1000, 1001])) of
        Some (Inl e) \<Rightarrow> error_kind e = TimedOut | _ \<Rightarrow> False)"

section \<open>The tests of datagrams\<close>

text \<open>These tests, and the one of malformed frames, are tests of the generated codec, which is a parameter: what they ask
  of it is a hypothesis of their lemmas.\<close>

definition make_lan_packet :: "'x proto \<Rightarrow> u32 \<Rightarrow> 'x mesh_packet" where
  "make_lan_packet P i = (mesh_packet_default P)\<lparr>mp_id := i, mp_from := 0xABCD, mp_to := 0xFFFFFFFF\<rparr>"

definition test_udp_decode_valid :: "'x proto \<Rightarrow> bool" where
  "test_udp_decode_valid P = (case decode_packet P (encode_mesh_packet P (make_lan_packet P 0x1234)) of
     Some decoded \<Rightarrow> mp_id decoded = 0x1234 \<and> mp_from decoded = 0xABCD \<and> mp_to decoded = 0xFFFFFFFF
   | None \<Rightarrow> False)"

definition test_udp_decode_malformed :: "'x proto \<Rightarrow> bool" where
  "test_udp_decode_malformed P = (decode_packet P [0xFF, 0xFE, 0xFD, 0xFC] = None)"

definition test_udp_decode_empty :: "'x proto \<Rightarrow> bool" where
  "test_udp_decode_empty P = (case decode_packet P [] of Some p \<Rightarrow> mp_id p = 0 | None \<Rightarrow> False)"

section \<open>They pass\<close>

lemma request_length: "length (want_config_request wire_proto i) \<le> MAX_PACKET_SIZE"
  by (simp add: want_config_request_def MAX_PACKET_SIZE_def)

lemma frame_and_channel_tests:
  "test_channel_keys_use_preset_name" "test_decode_frame_rebooted" "test_decode_packet_valid"
  "test_decode_packet_non_packet_variant" "test_decode_packet_empty_payload"
proof -
  show "test_channel_keys_use_preset_name"
    by (simp add: test_channel_keys_use_preset_name_def channel_keys_def map_filter_simps test_channel_def
        channel_display_name_def modem_preset_name_def) (simp add: channel_key_from_proto_def channel_hash_def expand_psk_def DEFAULT_PSK_def)
qed (simp_all add: test_decode_frame_rebooted_def test_decode_packet_valid_def test_decode_packet_non_packet_variant_def
    test_decode_packet_empty_payload_def decode_mesh_def decode_frame_def wired_def make_mesh_packet_def mesh_packet_default_def)

lemma wait_tests: "test_wait_for_reboot" "test_wait_for_reboot_timeout"
proof -
  let ?noise = "[0x00, 0xFF] @ as_bytes ''boot log text'' @ [0x0D, 0x0A]"
  let ?f = "radio_says (From_rebooted True)"
  have len: "length ?f \<le> MAX_PACKET_SIZE" by (simp add: radio_says_def MAX_PACKET_SIZE_def)
  have "START1 \<notin> set ?noise" by (simp add: START1_def)
  from noise_ignored [OF this, of "[]"] have "feed_bytes FrameReader_new ?noise = (FrameReader_new, [])"
    by (simp only: append_Nil2 feed_bytes.simps(1))
  then have fed: "feed_bytes FrameReader_new (?noise @ frame_payload ?f) = (FrameReader_new, [?f])"
    using serial_link.arrives [OF len] by (simp only: feed_bytes_append [of _ ?noise] prod.case append_Nil)
  have "decode_frame wire_proto ?f = Rebooted" by (simp add: decode_frame_def wired_def)
  moreover obtain x xs where data: "?noise @ frame_payload ?f = x # xs" by simp
  moreover have "length (?noise @ frame_payload ?f) \<le> 256" by (simp add: radio_says_def)
  ultimately show "test_wait_for_reboot"
    using fed unfolding test_wait_for_reboot_def Let_def append_assoc
    by (simp add: mock_read_def wait_for_reboot_def)
  show "test_wait_for_reboot_timeout"
    by (simp add: test_wait_for_reboot_timeout_def mock_read_def wait_for_reboot_def)
qed

lemma write_packet_roundtrip_passes: "test_write_packet_roundtrip"
proof -
  let ?payload = "wire_to_radio (To_packet (make_mesh_packet 0xDEAD))"
  have "length ?payload \<le> MAX_PACKET_SIZE"
    by (simp add: make_mesh_packet_def mesh_packet_default_def MAX_PACKET_SIZE_def)
  from serial_link.arrives [OF this] show ?thesis
    by (simp add: test_write_packet_roundtrip_def write_packet_def Let_def del: feed_bytes.simps)
      (simp add: frame_payload_shape START1_def START2_def make_mesh_packet_def mesh_packet_default_def)
qed

lemma want_config_in_request [simp]: "want_config_in (frame_payload (want_config_request wire_proto i)) = Some i"
  using serial_link.arrives [OF request_length [of i]]
  by (simp add: want_config_in_def del: feed_bytes.simps) (simp add: want_config_request_def)

lemma frame_payload_nonempty [simp]: "frame_payload p \<noteq> []"
  by (simp add: frame_payload_shape)

lemma test_handshake_nothing: "test_handshake i timeout [] = ([frame_payload (want_config_request wire_proto i)], None)"
  by (simp add: test_handshake_def handshake_with_timeout_def run_handshake_def hs_config_for_def)

text \<open>One injected message is one step of the loop.\<close>

lemma hs_loop_inject:
  assumes "hc_probe c = None" and "hs_heard s" and "hs_reader s = FrameReader_new" and "now \<le> hc_deadline c"
    and "hc_request c = want_config_request wire_proto i"
    and "wired \<lparr>fr_id = 0, fr_payload_variant = Some v\<rparr>" and "length (radio_says v) \<le> MAX_PACKET_SIZE"
  shows "hs_loop wire_proto c s (inject now v @ is) = (case hs_on_variant c None s v of
       (ws, Hs_done r) \<Rightarrow> (ws, Some r)
     | (ws, Hs_continue s') \<Rightarrow> (case hs_loop wire_proto c s' is of (ws', r) \<Rightarrow> (ws @ ws', r)))"
proof -
  have "undisturbed c s now" using assms(1,2,4) by (simp add: undisturbed_def)
  moreover have heard: "s\<lparr>hs_heard := True\<rparr> = s" using assms(2) by simp
  have "hs_on_payload wire_proto c None s (radio_says v) = hs_on_variant c None s v"
    using on_reply [of wire_proto c "radio_says v" v None s] reply_radio_says [OF assms(6,7)] assms(2,5) by (simp add: heard)
  ultimately show ?thesis
    unfolding inject_def using hs_loop_frame [OF _ assms(3,7)] by simp
qed

lemma test_handshake_start:
  "test_handshake i timeout is = (case hs_loop wire_proto (hs_config_for wire_proto i 0 timeout None) (hs_initial 0 None) is of
     (ws, r) \<Rightarrow> (frame_payload (want_config_request wire_proto i) # ws, r))"
  by (simp add: test_handshake_def handshake_with_timeout_def run_handshake_def Let_def)
    (simp add: hs_config_for_def split: prod.split)

lemma test_config [simp]:
  "hc_probe (hs_config_for P i 0 timeout None) = None" "hc_deadline (hs_config_for P i 0 timeout None) = timeout"
  "hc_config_id (hs_config_for P i 0 timeout None) = i" "hc_request (hs_config_for P i 0 timeout None) = want_config_request P i"
  "hc_frame (hs_config_for P i 0 timeout None) = frame_payload (want_config_request P i)"
  "hs_heard (hs_initial 0 None)" "hs_reader (hs_initial 0 None) = FrameReader_new"
  by (simp_all add: hs_config_for_def hs_initial_def)

lemma inject_last:
  assumes "hc_probe c = None" and "hs_heard s" and "hs_reader s = FrameReader_new" and "now \<le> hc_deadline c"
    and "hc_request c = want_config_request wire_proto i"
    and "wired \<lparr>fr_id = 0, fr_payload_variant = Some v\<rparr>" and "length (radio_says v) \<le> MAX_PACKET_SIZE"
  shows "hs_loop wire_proto c s (inject now v) = (case hs_on_variant c None s v of
       (ws, Hs_done r) \<Rightarrow> (ws, Some r)
     | (ws, Hs_continue s') \<Rightarrow> (ws, None))"
  using hs_loop_inject [OF assms, of "[]"] by (simp split: prod.splits hs_step.splits)

lemma injected [simp]:
  "wired \<lparr>fr_id = 0, fr_payload_variant = Some (From_my_info n x)\<rparr>"
  "wired \<lparr>fr_id = 0, fr_payload_variant = Some (From_config_complete_id i)\<rparr>"
  "wired \<lparr>fr_id = 0, fr_payload_variant = Some (From_rebooted b)\<rparr>"
  "wired \<lparr>fr_id = 0, fr_payload_variant = Some (From_packet p)\<rparr>"
  "length (radio_says (From_my_info n x)) \<le> MAX_PACKET_SIZE"
  "length (radio_says (From_config_complete_id i)) \<le> MAX_PACKET_SIZE"
  "length (radio_says (From_rebooted b)) \<le> MAX_PACKET_SIZE"
  "length (radio_says (From_packet (make_mesh_packet i))) \<le> MAX_PACKET_SIZE"
  by (simp_all add: wired_def radio_says_def MAX_PACKET_SIZE_def make_mesh_packet_def mesh_packet_default_def)

lemma handshake_tests:
  "test_handshake_success random" "test_handshake_ignores_non_config random" "test_handshake_resends_after_reboot random"
  "test_handshake_timeout random"
proof -
  have received: "feed_bytes FrameReader_new (frame_payload (want_config_request wire_proto i)) =
      (FrameReader_new, [want_config_request wire_proto i])" for i
    by (rule serial_link.arrives [OF request_length])
  have number: "unwire_to_radio (want_config_request wire_proto i) = Some (To_want_config_id i)" for i
    by (simp add: want_config_request_def)
  show "test_handshake_success random"
    by (simp add: test_handshake_success_def test_handshake_nothing received number Let_def del: feed_bytes.simps)
      (simp add: test_handshake_start hs_loop_inject inject_last split: prod.split)
  show "test_handshake_ignores_non_config random"
    by (simp add: test_handshake_ignores_non_config_def test_handshake_nothing Let_def)
      (simp add: test_handshake_start hs_loop_inject inject_last split: prod.split)
  show "test_handshake_resends_after_reboot random"
    by (simp add: test_handshake_resends_after_reboot_def test_handshake_nothing Let_def)
      (simp add: test_handshake_start hs_loop_inject inject_last split: prod.split)
  show "test_handshake_timeout random"
    by (simp add: test_handshake_timeout_def test_handshake_start hs_iteration_def hs_on_read_def timed_out_def)
qed

text \<open>What is left of the tests of the codec when it rejects malformed bytes and decodes what it encoded.\<close>

lemma malformed_frames_test:
  assumes "decode_from_radio P [0xFF, 0xFE, 0xFD, 0xFC] = None"
    and "decode_from_radio P [] = Some \<lparr>fr_id = 0, fr_payload_variant = None\<rparr>"
  shows "test_decode_packet_malformed P"
  using assms by (simp add: test_decode_packet_malformed_def decode_mesh_def decode_frame_def)

lemma udp_tests:
  "decode_mesh_packet P (encode_mesh_packet P (make_lan_packet P 0x1234)) = Some (make_lan_packet P 0x1234) \<Longrightarrow> test_udp_decode_valid P"
  "decode_mesh_packet P [0xFF, 0xFE, 0xFD, 0xFC] = None \<Longrightarrow> test_udp_decode_malformed P"
  "decode_mesh_packet P [] = Some (mesh_packet_default P) \<Longrightarrow> test_udp_decode_empty P"
  by (simp_all add: test_udp_decode_valid_def test_udp_decode_malformed_def test_udp_decode_empty_def decode_packet_def
      make_lan_packet_def mesh_packet_default_def)

text \<open>The unit tests of the serial module pass on the model, the handshake tests for every
  number the request may draw: success, noise before the answer, a reboot in the middle after which the same
  request is written again, and the timeout.\<close>

lemma serial_tests_pass:
  "test_channel_keys_use_preset_name \<and> test_wait_for_reboot \<and> test_wait_for_reboot_timeout \<and> test_decode_frame_rebooted \<and>
   test_decode_packet_valid \<and> test_decode_packet_non_packet_variant \<and> test_decode_packet_empty_payload \<and>
   test_write_packet_roundtrip \<and> test_handshake_success random \<and>
   test_handshake_ignores_non_config random \<and> test_handshake_resends_after_reboot random \<and> test_handshake_timeout random"
  using frame_and_channel_tests wait_tests write_packet_roundtrip_passes handshake_tests by blast

end
