(* ===== verification/Conformance_Bridge.thy ===== *)
theory Conformance_Bridge
  imports Lan Exchange
begin

text \<open>
  The unit tests of the packet handlers in \<open>src/bridge.rs\<close> as definitions, one for each test, on the full-width codec
  of theory \<open>Wire\<close> and for every block cipher.  The port, the mock radio and the receiving socket of a test are what
  the handler hands to them: the frames it writes and the datagrams it sends.
\<close>

section \<open>Helpers of the tests\<close>

definition MY_NODE :: u32 where "MY_NODE = 0x33445566"

definition longfast :: channel_key where
  "longfast = channel_key_from_proto 0 ''LongFast'' [1]"

definition bridge_mesh_packet :: "u32 \<Rightarrow> hops mesh_packet" where
  "bridge_mesh_packet i = (mesh_packet_default wire_proto)\<lparr>mp_id := i, mp_from := 0x1234, mp_to := 0xFFFFFFFF\<rparr>"

definition text_data :: "string \<Rightarrow> hops data_msg" where
  "text_data s = (data_default wire_proto)\<lparr>d_portnum := 1, d_payload := as_bytes s\<rparr>"

definition make_udp_packet :: "aes_crate \<Rightarrow> u32 \<Rightarrow> string \<Rightarrow> hops mesh_packet" where
  "make_udp_packet A i s =
     (let ck = longfast; p = bridge_mesh_packet i; data = text_data s
      in p\<lparr>mp_payload_variant := Some (Encrypted (encrypt_aes_ctr A (ck_key ck) (mp_from p) (mp_id p) (wire_data data))),
           mp_channel := ck_hash ck, mp_rest := (3, 3)\<rparr>)"

definition from_radio_packet :: "hops mesh_packet \<Rightarrow> bytes" where
  "from_radio_packet packet = radio_says (From_packet packet)"

text \<open>The messages in what was written to the radio; \<open>None\<close> is the panic of \<open>unwrap\<close>.\<close>

definition written_to_radio :: "effect list \<Rightarrow> hops to_radio list option" where
  "written_to_radio effs = those (map unwire_to_radio (snd (feed_bytes FrameReader_new (concat (serial_writes effs)))))"

text \<open>The receiver of the tests is bound to the local host, at a port that the system chooses.\<close>

definition test_bridge :: "ingress \<Rightarrow> bridge" where
  "test_bridge ingress = Bridge_new
     \<lparr>bc_multicast_addr = 0x7F000001, bc_udp_port = 50000, bc_ingress = ingress, bc_my_node_num = MY_NODE\<rparr> [longfast]"

definition nothing_received :: "effect list \<Rightarrow> bool" where
  "nothing_received effs = (datagrams effs = [])"

section \<open>The tests of frames from the radio\<close>

definition test_serial_frame_forwards_to_udp_encrypted :: "aes_crate \<Rightarrow> bool" where
  "test_serial_frame_forwards_to_udp_encrypted A =
     (let packet = (bridge_mesh_packet 0xBEEF)\<lparr>mp_payload_variant := Some (Decoded (text_data ''hi''))\<rparr>;
          (bridge, effs, rebooted) = handle_serial_frame wire_proto A (test_bridge MqttProxy) (from_radio_packet packet)
      in \<not> rebooted \<and>
         (case datagrams effs of
            sent # _ \<Rightarrow>
              (case unwire_mesh sent of
                 Some got \<Rightarrow>
                   mp_id got = 0xBEEF \<and> mp_from got = 0x1234 \<and> mp_channel got = 8 \<and>
                   (case mp_payload_variant got of
                      Some (Encrypted ct) \<Rightarrow>
                        (let pt = decrypt_aes_ctr A (ck_key longfast) 0x1234 0xBEEF ct
                         in map_option d_payload (unwire_data pt) = Some (as_bytes ''hi''))
                    | _ \<Rightarrow> False)
               | None \<Rightarrow> False)
          | [] \<Rightarrow> False))"

definition test_serial_frame_skips_lan_echoes :: "aes_crate \<Rightarrow> bool" where
  "test_serial_frame_skips_lan_echoes A =
     (let echo = (\<lambda>transport. (bridge_mesh_packet 0xCAFE)\<lparr>mp_transport_mechanism := transport\<rparr>);
          (bridge1, effs1, _) = handle_serial_frame wire_proto A (test_bridge MqttProxy)
             (from_radio_packet (echo (transport_multicast_udp wire_proto)));
          (bridge2, effs2, _) = handle_serial_frame wire_proto A bridge1
             (from_radio_packet (echo (transport_mqtt wire_proto)))
      in nothing_received (effs1 @ effs2))"

definition test_serial_frame_skips_pki :: "aes_crate \<Rightarrow> bool" where
  "test_serial_frame_skips_pki A =
     (let packet = (bridge_mesh_packet 0xCAFE)\<lparr>mp_pki_encrypted := True\<rparr>;
          (bridge, effs, _) = handle_serial_frame wire_proto A (test_bridge MqttProxy) (from_radio_packet packet)
      in nothing_received effs)"

definition test_serial_frame_ignores_non_packet :: "aes_crate \<Rightarrow> bool" where
  "test_serial_frame_ignores_non_packet A =
     (let (bridge, effs, rebooted) = handle_serial_frame wire_proto A (test_bridge MqttProxy)
            (radio_says (From_config_complete_id 42))
      in \<not> rebooted \<and> nothing_received effs)"

definition test_serial_frame_reports_reboot :: "aes_crate \<Rightarrow> bool" where
  "test_serial_frame_reports_reboot A =
     (let (bridge, effs, rebooted) = handle_serial_frame wire_proto A (test_bridge MqttProxy) (radio_says (From_rebooted True))
      in rebooted \<and> nothing_received effs)"

definition test_serial_frame_malformed :: "aes_crate \<Rightarrow> bool" where
  "test_serial_frame_malformed A =
     (let (bridge, effs, _) = handle_serial_frame wire_proto A (test_bridge MqttProxy) [0xFF, 0xFE, 0xFD]
      in nothing_received effs)"

section \<open>The tests of packets from the LAN\<close>

definition lan_receives :: "aes_crate \<Rightarrow> bridge \<Rightarrow> hops mesh_packet \<Rightarrow> bridge \<times> effect list" where
  "lan_receives A b packet = handle_udp_packet wire_proto A b (wire_mesh packet)"

definition proxied_envelope :: "hops to_radio \<Rightarrow> hops service_envelope option" where
  "proxied_envelope m = (case m of
     To_mqtt_proxy msg \<Rightarrow> (case pm_payload_variant msg of Some (Proxy_data data) \<Rightarrow> unwire_envelope data | _ \<Rightarrow> None)
   | _ \<Rightarrow> None)"

definition test_udp_packet_mqtt_proxy_keeps_sender :: "aes_crate \<Rightarrow> bool" where
  "test_udp_packet_mqtt_proxy_keeps_sender A =
     (let packet = make_udp_packet A 0xFACE ''hello''; (bridge, effs) = lan_receives A (test_bridge MqttProxy) packet
      in case written_to_radio effs of
           Some [m] \<Rightarrow> (case proxied_envelope m of
               Some envelope \<Rightarrow> se_channel_id envelope = ''LongFast'' \<and> se_gateway_id envelope = MQTT_PROXY_GATEWAY_ID \<and>
                 se_packet envelope = Some packet
             | None \<Rightarrow> False)
         | _ \<Rightarrow> False)"

definition test_udp_packet_mqtt_proxy_pki :: "aes_crate \<Rightarrow> bool" where
  "test_udp_packet_mqtt_proxy_pki A =
     (let packet = (make_udp_packet A 0xFACE ''secret'')\<lparr>mp_channel := 0, mp_to := MY_NODE, mp_pki_encrypted := True\<rparr>;
          (bridge, effs) = lan_receives A (test_bridge MqttProxy) packet
      in case written_to_radio effs of
           Some (m # _) \<Rightarrow> map_option se_channel_id (proxied_envelope m) = Some ''PKI''
         | _ \<Rightarrow> False)"

definition test_udp_packet_unknown_channel_dropped :: "aes_crate \<Rightarrow> bool" where
  "test_udp_packet_unknown_channel_dropped A =
     (let packet = (make_udp_packet A 0xFACE ''hello'')\<lparr>mp_channel := 77\<rparr>;
          (bridge, effs) = lan_receives A (test_bridge MqttProxy) packet
      in serial_writes effs = [])"

definition test_udp_packet_rejects_decoded_and_spoofed :: "aes_crate \<Rightarrow> bool" where
  "test_udp_packet_rejects_decoded_and_spoofed A =
     (let (bridge1, effs1) = lan_receives A (test_bridge MqttProxy) (bridge_mesh_packet 1);
          spoofed = (make_udp_packet A 2 ''hi'')\<lparr>mp_from := MY_NODE\<rparr>;
          (bridge2, effs2) = lan_receives A bridge1 spoofed
      in serial_writes (effs1 @ effs2) = [])"

definition test_udp_packet_dedup_skips_repeat :: "aes_crate \<Rightarrow> bool" where
  "test_udp_packet_dedup_skips_repeat A =
     (let packet = make_udp_packet A 0xAAAA ''x'';
          (bridge1, effs1) = lan_receives A (test_bridge MqttProxy) packet;
          (bridge2, effs2) = lan_receives A bridge1 packet
      in serial_writes effs1 \<noteq> [] \<and> serial_writes effs2 = [])"

definition test_udp_packet_dedup_eviction :: "aes_crate \<Rightarrow> bool" where
  "test_udp_packet_dedup_eviction A =
     (let bridge = foldl (\<lambda>b i. fst (lan_receives A b (make_udp_packet A (of_nat i) ''x'')))
            (test_bridge MqttProxy) [0..<Suc RECENT_PACKETS_CAPACITY];
          (bridge', effs) = lan_receives A bridge (make_udp_packet A 0 ''x'')
      in serial_writes effs \<noteq> [])"

definition test_udp_packet_malformed :: "aes_crate \<Rightarrow> bool" where
  "test_udp_packet_malformed A =
     (let (bridge, effs) = handle_udp_packet wire_proto A (test_bridge MqttProxy) [0xFF, 0xFE, 0xFD]
      in serial_writes effs = [])"

definition test_serial_frame_adds_to_recent_preventing_udp_echo :: "aes_crate \<Rightarrow> bool" where
  "test_serial_frame_adds_to_recent_preventing_udp_echo A =
     (let (bridge, effs, _) = handle_serial_frame wire_proto A (test_bridge MqttProxy)
            (from_radio_packet (bridge_mesh_packet 0xDEAD));
          (bridge', effs') = lan_receives A bridge (make_udp_packet A 0xDEAD ''x'')
      in serial_writes (effs @ effs') = [])"

definition test_udp_packet_phone_ingress_drops_undecryptable :: "aes_crate \<Rightarrow> bool" where
  "test_udp_packet_phone_ingress_drops_undecryptable A =
     (let packet = (make_udp_packet A 0xBEAD ''hello'')\<lparr>mp_channel := 77\<rparr>;
          (bridge, effs) = lan_receives A (test_bridge Phone) packet
      in serial_writes effs = [])"

definition test_udp_packet_phone_ingress_decrypts_and_stamps :: "aes_crate \<Rightarrow> bool" where
  "test_udp_packet_phone_ingress_decrypts_and_stamps A =
     (let (bridge, effs) = lan_receives A (test_bridge Phone) (make_udp_packet A 0xBEAD ''hello'')
      in case written_to_radio effs of
           Some [To_packet p] \<Rightarrow>
             mp_id p = 0xBEAD \<and> mp_channel p = 0 \<and> mp_transport_mechanism p = transport_multicast_udp wire_proto \<and>
             (case mp_payload_variant p of Some (Decoded d) \<Rightarrow> d_payload d = as_bytes ''hello'' | _ \<Rightarrow> False)
         | _ \<Rightarrow> False)"

section \<open>They pass\<close>

lemma longfast_simps [simp]:
  "ck_index longfast = 0" "ck_name longfast = ''LongFast''" "ck_key longfast = DEFAULT_PSK" "ck_hash longfast = 8"
  by (simp_all add: longfast_def channel_key_from_proto_def expand_psk_def channel_hash_def DEFAULT_PSK_def)

lemma bridge_mesh_packet_simps [simp]:
  "mp_from (bridge_mesh_packet i) = 0x1234" "mp_to (bridge_mesh_packet i) = 0xFFFFFFFF" "mp_id (bridge_mesh_packet i) = i"
  "mp_channel (bridge_mesh_packet i) = 0" "mp_payload_variant (bridge_mesh_packet i) = None"
  "\<not> mp_pki_encrypted (bridge_mesh_packet i)" "mp_transport_mechanism (bridge_mesh_packet i) = 0"
  by (simp_all add: bridge_mesh_packet_def mesh_packet_default_def)

lemma make_udp_packet_simps [simp]:
  "mp_from (make_udp_packet A i s) = 0x1234" "mp_to (make_udp_packet A i s) = 0xFFFFFFFF" "mp_id (make_udp_packet A i s) = i"
  "mp_channel (make_udp_packet A i s) = 8" "\<not> mp_pki_encrypted (make_udp_packet A i s)" "mp_transport_mechanism (make_udp_packet A i s) = 0"
  "mp_payload_variant (make_udp_packet A i s) = Some (Encrypted (encrypt_aes_ctr A DEFAULT_PSK 0x1234 i (wire_data (text_data s))))"
  by (simp_all add: make_udp_packet_def Let_def)

lemma test_bridge_simps [simp]:
  "br_channels (test_bridge ingress) = [longfast]" "br_recent (test_bridge ingress) = RecentPackets_new RECENT_PACKETS_CAPACITY"
  "bc_ingress (br_config (test_bridge ingress)) = ingress" "bc_my_node_num (br_config (test_bridge ingress)) = MY_NODE"
  by (simp_all add: test_bridge_def Bridge_new_def)

lemma recent_insert_new [simp]:
  "recent_insert (RecentPackets_new RECENT_PACKETS_CAPACITY) f i =
     (\<lparr>order = [(f, i)], seen = {(f, i)}, capacity = RECENT_PACKETS_CAPACITY\<rparr>, True)"
  by (simp add: recent_insert_def RecentPackets_new_def RECENT_PACKETS_CAPACITY_def)

lemma recent_insert_again [simp]:
  "recent_insert \<lparr>order = [(f, i)], seen = {(f, i)}, capacity = n\<rparr> f i = (\<lparr>order = [(f, i)], seen = {(f, i)}, capacity = n\<rparr>, False)"
  by (simp add: recent_insert_def)

lemma decode_frame_says [simp]:
  "decode_frame wire_proto (from_radio_packet p) = Packet p"
  "decode_frame wire_proto (radio_says (From_config_complete_id i)) = Other"
  "decode_frame wire_proto (radio_says (From_rebooted True)) = Rebooted"
  by (simp_all add: decode_frame_def from_radio_packet_def wired_def)

lemma text_data_simps [simp]: "d_payload (text_data s) = as_bytes s"
  by (simp add: text_data_def)

lemma serial_writes_append [simp]: "serial_writes (xs @ ys) = serial_writes xs @ serial_writes ys"
  by (simp add: serial_writes_def)

lemma malformed [simp]:
  "decode_frame wire_proto [0xFF, 0xFE, 0xFD] = Other" "unwire_mesh [0xFF, 0xFE, 0xFD] = None"
  by (simp_all add: decode_frame_def unwire_from_radio_def unwire_mesh_def unwire_fields_def)

lemma serial_frame_tests:
  "test_serial_frame_skips_lan_echoes A" "test_serial_frame_skips_pki A" "test_serial_frame_ignores_non_packet A"
  "test_serial_frame_reports_reboot A" "test_serial_frame_malformed A"
  by (simp_all add: test_serial_frame_skips_lan_echoes_def test_serial_frame_skips_pki_def test_serial_frame_ignores_non_packet_def
      test_serial_frame_reports_reboot_def test_serial_frame_malformed_def handle_serial_frame_def nothing_received_def Let_def)

lemma forwards_encrypted_passes: "test_serial_frame_forwards_to_udp_encrypted A"
  by (simp add: test_serial_frame_forwards_to_udp_encrypted_def handle_serial_frame_def encrypt_packet_def send_multicast_def Let_def
      aes_ctr.dec_enc)

lemma written_one:
  assumes "length (wire_to_radio m) \<le> MAX_PACKET_SIZE"
  shows "written_to_radio [Write_serial (frame_payload (wire_to_radio m))] = map_option (\<lambda>x. [x]) (unwire_to_radio (wire_to_radio m))"
  using serial_link.arrives [OF assms] by (simp add: written_to_radio_def split: option.split)

lemma gateway_length [simp]: "length MQTT_PROXY_GATEWAY_ID = 22"
  by (simp add: MQTT_PROXY_GATEWAY_ID_def)

lemma udp_packet_tests:
  "test_udp_packet_unknown_channel_dropped A" "test_udp_packet_rejects_decoded_and_spoofed A"
  "test_udp_packet_dedup_skips_repeat A" "test_udp_packet_malformed A"
  "test_serial_frame_adds_to_recent_preventing_udp_echo A" "test_udp_packet_phone_ingress_drops_undecryptable A"
  by (simp_all add: test_udp_packet_unknown_channel_dropped_def test_udp_packet_rejects_decoded_and_spoofed_def
      test_udp_packet_dedup_skips_repeat_def test_udp_packet_malformed_def
      test_serial_frame_adds_to_recent_preventing_udp_echo_def test_udp_packet_phone_ingress_drops_undecryptable_def
      lan_receives_def handle_udp_packet_def handle_serial_frame_def decode_packet_def is_encrypted_def downlink_channel_id_def
      decrypt_packet_def encrypt_packet_def BROADCAST_ADDR_def MY_NODE_def Let_def)

lemma proxy_frame_length:
  assumes "length (se_channel_id e) \<le> 22" and "length (se_gateway_id e) \<le> 22" and "se_packet e = Some p"
    and "length (wire_mesh p) \<le> 100"
  shows "length (wire_to_radio (To_mqtt_proxy \<lparr>pm_topic = ''msh/2/e/'' @ se_channel_id e @ ''/'' @ se_gateway_id e, pm_retained = False,
    pm_payload_variant = Some (Proxy_data (wire_envelope e))\<rparr>)) \<le> MAX_PACKET_SIZE"
  using assms by (simp add: MAX_PACKET_SIZE_def)

lemma written_proxy:
  assumes "length (se_channel_id e) \<le> 22" and "length (se_gateway_id e) \<le> 22" and "se_packet e = Some p"
    and "length (wire_mesh p) \<le> 100"
  shows "\<exists>m. written_to_radio [Write_serial (write_mqtt_proxy wire_proto e)] = Some [m] \<and> proxied_envelope m = Some e"
proof -
  let ?m = "To_mqtt_proxy \<lparr>pm_topic = ''msh/2/e/'' @ se_channel_id e @ ''/'' @ se_gateway_id e, pm_retained = False,
    pm_payload_variant = Some (Proxy_data (wire_envelope e))\<rparr>"
  have "written_to_radio [Write_serial (frame_payload (wire_to_radio ?m))] = Some [?m]"
    using written_one [OF proxy_frame_length [OF assms]] assms by simp
  moreover have "write_mqtt_proxy wire_proto e = frame_payload (wire_to_radio ?m)"
    by (simp add: write_mqtt_proxy_def Let_def)
  moreover have "proxied_envelope ?m = Some e"
    using assms by (simp add: proxied_envelope_def)
  ultimately show ?thesis by auto
qed

lemma mqtt_proxy_tests: "test_udp_packet_mqtt_proxy_keeps_sender A" "test_udp_packet_mqtt_proxy_pki A"
proof -
  let ?p = "make_udp_packet A 0xFACE ''hello''"
  let ?e = "\<lparr>se_packet = Some ?p, se_channel_id = ''LongFast'', se_gateway_id = MQTT_PROXY_GATEWAY_ID\<rparr>"
  have "snd (lan_receives A (test_bridge MqttProxy) ?p) = [Write_serial (write_mqtt_proxy wire_proto ?e)]"
    by (simp add: lan_receives_def handle_udp_packet_def decode_packet_def is_encrypted_def downlink_channel_id_def MY_NODE_def Let_def)
  moreover obtain m where "written_to_radio [Write_serial (write_mqtt_proxy wire_proto ?e)] = Some [m]" "proxied_envelope m = Some ?e"
    using written_proxy [of ?e ?p] by (auto simp: aes_ctr.length_enc)
  ultimately show "test_udp_packet_mqtt_proxy_keeps_sender A"
    by (simp add: test_udp_packet_mqtt_proxy_keeps_sender_def Let_def split_beta)
  let ?q = "(make_udp_packet A 0xFACE ''secret'')\<lparr>mp_channel := 0, mp_to := MY_NODE, mp_pki_encrypted := True\<rparr>"
  let ?e = "\<lparr>se_packet = Some ?q, se_channel_id = ''PKI'', se_gateway_id = MQTT_PROXY_GATEWAY_ID\<rparr>"
  have "snd (lan_receives A (test_bridge MqttProxy) ?q) = [Write_serial (write_mqtt_proxy wire_proto ?e)]"
    by (simp add: lan_receives_def handle_udp_packet_def decode_packet_def is_encrypted_def downlink_channel_id_def MY_NODE_def Let_def)
  moreover obtain m where "written_to_radio [Write_serial (write_mqtt_proxy wire_proto ?e)] = Some [m]" "proxied_envelope m = Some ?e"
    using written_proxy [of ?e ?q] by (auto simp: aes_ctr.length_enc)
  ultimately show "test_udp_packet_mqtt_proxy_pki A"
    by (simp add: test_udp_packet_mqtt_proxy_pki_def Let_def split_beta)
qed

lemma phone_ingress_passes: "test_udp_packet_phone_ingress_decrypts_and_stamps A"
proof -
  let ?p = "make_udp_packet A 0xBEAD ''hello''"
  let ?q = "?p\<lparr>mp_payload_variant := Some (Decoded (text_data ''hello'')), mp_channel := 0, mp_transport_mechanism := 6\<rparr>"
  have "snd (lan_receives A (test_bridge Phone) ?p) = [Write_serial (frame_payload (wire_to_radio (To_packet ?q)))]"
    by (simp add: lan_receives_def handle_udp_packet_def decode_packet_def is_encrypted_def decrypt_packet_def write_packet_def
        MY_NODE_def aes_ctr.dec_enc Let_def)
  moreover have "written_to_radio [Write_serial (frame_payload (wire_to_radio (To_packet ?q)))] = Some [To_packet ?q]"
    using written_one [of "To_packet ?q"] by (simp add: MAX_PACKET_SIZE_def)
  ultimately show ?thesis
    by (simp add: test_udp_packet_phone_ingress_decrypts_and_stamps_def Let_def split_beta)
qed

text \<open>The memory after \<open>n\<close> different packets of one sender holds the last 1024 of them.\<close>

lemma memory_after:
  assumes "n \<le> 2 ^ 32"
  shows "let b = foldl (\<lambda>b i. fst (lan_receives A b (make_udp_packet A (of_nat i) s))) (test_bridge MqttProxy) [0..<n] in
    bridge_inv (br_config (test_bridge MqttProxy)) [longfast] b \<and>
    order (br_recent b) = last_n RECENT_PACKETS_CAPACITY (map (\<lambda>i. (0x1234, of_nat i)) [0..<n])"
  using assms
proof (induction n)
  case 0
  show ?case by (simp add: Let_def last_n_def) (simp add: test_bridge_def Bridge_new_def bridge_inv_def RecentPackets_new_def recent_ok_def)
next
  case (Suc n)
  let ?key = "\<lambda>i :: nat. (0x1234 :: u32, of_nat i :: u32)"
  let ?b = "foldl (\<lambda>b i. fst (lan_receives A b (make_udp_packet A (of_nat i) s))) (test_bridge MqttProxy) [0..<n]"
  let ?data = "wire_mesh (make_udp_packet A (of_nat n) s)"
  have IH: "bridge_inv (br_config (test_bridge MqttProxy)) [longfast] ?b"
      "order (br_recent ?b) = last_n RECENT_PACKETS_CAPACITY (map ?key [0..<n])"
    using Suc by (simp_all add: Let_def)
  have new: "?key n \<notin> set (order (br_recent ?b))"
  proof
    assume "?key n \<in> set (order (br_recent ?b))"
    then obtain i where "i < n" "(of_nat i :: u32) = of_nat n"
      by (auto simp: IH(2) last_n_def dest!: in_set_dropD)
    then have "unat (of_nat i :: u32) = unat (of_nat n :: u32)" "i < n" by simp_all
    with Suc.prems show False by (simp add: unat_of_nat)
  qed
  have ok: "recent_ok (br_recent ?b)" and win: "window_size (br_recent ?b) = RECENT_PACKETS_CAPACITY"
    using IH(1) by (simp_all add: bridge_inv_def window_size_def RECENT_PACKETS_CAPACITY_def)
  have key: "event_key wire_proto ?b (UdpPacket ?data) = Some (?key n)"
    using IH(1) by (simp add: event_key_def decode_packet_def is_encrypted_def bridge_inv_def packet_key_def MY_NODE_def)
  obtain r' where r': "recent_insert (br_recent ?b) 0x1234 (of_nat n) = (r', True)"
      "order r' = (if length (order (br_recent ?b)) < window_size (br_recent ?b) then order (br_recent ?b) else tl (order (br_recent ?b))) @ [?key n]"
    using recent_insert_accept [OF ok new] by auto
  have st: "fst (lan_receives A ?b (make_udp_packet A (of_nat n) s)) = fst (bridge_step wire_proto A ?b (UdpPacket ?data))"
    by (simp add: lan_receives_def bridge_step_udp)
  have "bridge_inv (br_config (test_bridge MqttProxy)) [longfast] (fst (lan_receives A ?b (make_udp_packet A (of_nat n) s)))"
    unfolding st by (rule bridge_machine.keeps [OF IH(1)])
  moreover have "order (br_recent (fst (lan_receives A ?b (make_udp_packet A (of_nat n) s)))) =
      last_n RECENT_PACKETS_CAPACITY (map ?key [0..<n] @ [?key n])"
    using last_n_snoc [of RECENT_PACKETS_CAPACITY "map ?key [0..<n]" "?key n"]
    by (simp add: st bridge_step_state key remember_def r' win IH(2), simp add: RECENT_PACKETS_CAPACITY_def)
  ultimately show ?case by (simp add: Let_def)
qed

lemma fresh_reaches_radio:
  assumes "recent_ok (br_recent b)" "br_config b = br_config (test_bridge MqttProxy)" "br_channels b = [longfast]"
    and "mp_from p \<noteq> 0" "mp_from p \<noteq> bc_my_node_num (br_config b)" "packet_key p \<notin> set (order (br_recent b))"
    and "p = make_udp_packet A n t"
  shows "\<exists>w. snd (lan_receives A b p) = [Write_serial w]"
proof -
  have dec: "decode_packet wire_proto (wire_mesh p) = Some p" "is_encrypted p"
    by (simp_all add: decode_packet_def is_encrypted_def assms(7))
  from handle_udp_packet_fresh [OF assms(1) dec assms(4,5,6), of A] show ?thesis
    by (simp add: lan_receives_def assms(2,3,7) downlink_channel_id_def)
qed

lemma eviction_passes: "test_udp_packet_dedup_eviction A"
proof -
  let ?b = "foldl (\<lambda>b i. fst (lan_receives A b (make_udp_packet A (of_nat i) ''x''))) (test_bridge MqttProxy) [0..<Suc RECENT_PACKETS_CAPACITY]"
  let ?p = "make_udp_packet A 0 ''x''"
  have mem: "bridge_inv (br_config (test_bridge MqttProxy)) [longfast] ?b"
      "order (br_recent ?b) = last_n RECENT_PACKETS_CAPACITY (map (\<lambda>i. (0x1234, of_nat i)) [0..<Suc RECENT_PACKETS_CAPACITY])"
    using memory_after [of "Suc RECENT_PACKETS_CAPACITY" A "''x''"] by (simp_all add: Let_def RECENT_PACKETS_CAPACITY_def)
  have "order (br_recent ?b) = map (\<lambda>i. (0x1234, of_nat i)) [1..<Suc RECENT_PACKETS_CAPACITY]"
    unfolding mem(2) last_n_def by (simp add: drop_map del: upt_Suc)
  moreover have "(of_nat i :: u32) \<noteq> 0" if "i \<in> set [1..<Suc RECENT_PACKETS_CAPACITY]" for i
  proof
    assume "(of_nat i :: u32) = 0"
    then have "unat (of_nat i :: u32) = 0" by simp
    with that show False by (simp add: unat_of_nat RECENT_PACKETS_CAPACITY_def)
  qed
  ultimately have fresh: "packet_key ?p \<notin> set (order (br_recent ?b))" by (auto simp: packet_key_def)
  have b: "recent_ok (br_recent ?b)" "br_config ?b = br_config (test_bridge MqttProxy)" "br_channels ?b = [longfast]"
    using mem(1) by (simp_all add: bridge_inv_def)
  have "mp_from ?p \<noteq> 0" "mp_from ?p \<noteq> bc_my_node_num (br_config ?b)" by (simp_all add: b(2) MY_NODE_def del: upt_Suc)
  from fresh_reaches_radio [OF b(1) trans [OF b(2) refl] b(3) this fresh refl]
  obtain w where "snd (lan_receives A ?b ?p) = [Write_serial w]" ..
  then show ?thesis by (auto simp: test_udp_packet_dedup_eviction_def Let_def split_beta simp del: upt_Suc)
qed

text \<open>C38: every unit test of the packet handlers passes on the model, with every block cipher: what crosses in
  each direction and in which form, what is dropped, no echo, and a packet evicted from the memory by 1024 others is
  forwarded again.\<close>

theorem bridge_tests_pass:
  "test_serial_frame_forwards_to_udp_encrypted A \<and> test_serial_frame_skips_lan_echoes A \<and> test_serial_frame_skips_pki A \<and>
   test_serial_frame_ignores_non_packet A \<and> test_serial_frame_reports_reboot A \<and> test_serial_frame_malformed A \<and>
   test_udp_packet_mqtt_proxy_keeps_sender A \<and> test_udp_packet_mqtt_proxy_pki A \<and>
   test_udp_packet_unknown_channel_dropped A \<and> test_udp_packet_rejects_decoded_and_spoofed A \<and>
   test_udp_packet_dedup_skips_repeat A \<and> test_udp_packet_dedup_eviction A \<and> test_udp_packet_malformed A \<and>
   test_serial_frame_adds_to_recent_preventing_udp_echo A \<and> test_udp_packet_phone_ingress_drops_undecryptable A \<and>
   test_udp_packet_phone_ingress_decrypts_and_stamps A"
  using serial_frame_tests forwards_encrypted_passes mqtt_proxy_tests udp_packet_tests eviction_passes phone_ingress_passes
  by blast

end
