(* ===== verification/Conformance_Autodetect.thy ===== *)
theory Conformance_Autodetect
  imports Autodetect Conformance_Serial
begin

text \<open>
  The unit tests of \<open>src/autodetect.rs\<close> as definitions, one for each test.  The mock port of \<open>src/test_util.rs\<close> is
  run in a closed loop with the handshake: what its responder returns for a write is what the next reads find.
  The temporary directories are a listing and its symbolic links.
\<close>

section \<open>The mock port in a closed loop\<close>

text \<open>
  The inputs of the handshake loop at the given instants.  The request due at an instant is written before the
  read of the same turn, a request repeated after a reboot notice follows it.
\<close>

fun mock_inputs :: "'x proto \<Rightarrow> hs_config \<Rightarrow> responder \<Rightarrow> nat \<Rightarrow> 'x hs_state \<Rightarrow> bytes \<Rightarrow> nat list \<Rightarrow> hs_input list" where
  "mock_inputs P c respond calls s read_buf [] = []"
| "mock_inputs P c respond calls s read_buf (now # nows) =
     (let due = fst (hs_iteration P c (quiet_input now) s);
          (outcome, left) = mock_read 1 (read_buf @ responses respond calls due);
          i = (quiet_input now)\<lparr>hi_read := outcome\<rparr>;
          (ws, step) = hs_iteration P c i s
      in i # (case step of
          Hs_done r \<Rightarrow> []
        | Hs_continue s' \<Rightarrow>
            mock_inputs P c respond (calls + length ws) s'
              (left @ responses respond (calls + length due) (drop (length due) ws)) nows))"

definition mock_port :: "responder \<Rightarrow> probe_timeouts \<Rightarrow> u32 \<Rightarrow> nat list \<Rightarrow> port" where
  "mock_port respond timeouts config_id nows =
     (let c = hs_config_for wire_proto config_id 0 (pt_total timeouts) (Some timeouts)
      in \<lparr>po_config_id = config_id, po_first_write = None, po_start = 0,
          po_inputs = mock_inputs wire_proto c respond 1 (hs_initial 0 (Some timeouts))
            (respond 0 (hc_frame c)) nows\<rparr>)"

section \<open>Helpers of the tests\<close>

definition FAST :: probe_timeouts where
  "FAST = \<lparr>pt_first_frame = 300, pt_resend = 100, pt_total = 2000\<rparr>"

definition silent :: responder where
  "silent calls written = []"

definition echo :: responder where
  "echo calls written = written"

definition radio_reply :: "u32 \<Rightarrow> bytes \<Rightarrow> bytes" where
  "radio_reply node frame = (case unwire_to_radio frame of
     Some (To_want_config_id i) \<Rightarrow>
       concat (map (\<lambda>v. frame_payload (radio_says v)) [From_my_info node (0, 0), From_config_complete_id i])
   | _ \<Rightarrow> [])"

definition fake_radio :: "u32 \<Rightarrow> responder" where
  "fake_radio node calls written = concat (map (radio_reply node) (snd (feed_bytes FrameReader_new written)))"

definition late :: "responder \<Rightarrow> responder" where
  "late respond calls written = (if calls = 0 then [] else respond calls written)"

definition chatty :: responder where
  "chatty calls written = as_bytes ''AT'' @ [0x0D, 0x0A] @ as_bytes ''OK'' @ [0x0D, 0x0A] @ [0x94, 0xC3, 0x00, 0x02, 0xFF, 0xFF]"

definition cand :: "path \<Rightarrow> candidate" where
  "cand device = \<lparr>cd_device = device, cd_alias = None\<rparr>"

text \<open>The instants of the loop's turns: 40 at each of the first two, more than a reply has bytes, and one past
  the limit for the first frame.\<close>

definition clock :: "nat list" where
  "clock = replicate 40 1 @ replicate 40 100 @ [301]"

definition temp_fs :: "(path \<times> string list) list \<Rightarrow> (path \<times> path option) list \<Rightarrow> fs_env" where
  "temp_fs dirs links =
     \<lparr>read_dir = (\<lambda>p. map_option (map Some) (map_of dirs p)),
      utf8 = (\<lambda>_. True),
      canonicalize = (\<lambda>p. case map_of links p of
          Some target \<Rightarrow> target
        | None \<Rightarrow> if p \<in> (\<Union>(d, names) \<in> set dirs. join d ` set names) then Some p else None),
      read_link = (\<lambda>p. case map_of links p of Some target \<Rightarrow> target | None \<Rightarrow> None),
      linux = True, available_ports = Inr []\<rparr>"

section \<open>The tests\<close>

definition test_candidates_order_and_dedupe :: bool where
  "test_candidates_order_and_dedupe =
     (let fs = temp_fs
        [(''/tmp/d'', [''ttyACM10'', ''ttyACM2'', ''ttyUSB1'', ''ttyUSB0'', ''ttyACM0'', ''ttyS0'', ''ttyACM'', ''ttyUSBx'', ''serial'']),
         (''/tmp/d/serial'', [''by-id'']),
         (''/tmp/d/serial/by-id'', [''usb-b_radio-if00-port0'', ''usb-a_radio-if00'', ''usb-a_radio_again-if00'', ''usb-dangling''])]
        [(''/tmp/d/serial/by-id/usb-b_radio-if00-port0'', Some ''/tmp/d/ttyUSB1''),
         (''/tmp/d/serial/by-id/usb-a_radio-if00'', Some ''/tmp/d/ttyACM10''),
         (''/tmp/d/serial/by-id/usb-a_radio_again-if00'', Some ''/tmp/d/ttyACM10''),
         (''/tmp/d/serial/by-id/usb-dangling'', None)]
      in candidates fs ''/tmp/d'' =
         [\<lparr>cd_device = ''/tmp/d/ttyACM10'', cd_alias = Some ''/tmp/d/serial/by-id/usb-a_radio-if00''\<rparr>,
          \<lparr>cd_device = ''/tmp/d/ttyUSB1'', cd_alias = Some ''/tmp/d/serial/by-id/usb-b_radio-if00-port0''\<rparr>,
          cand ''/tmp/d/ttyACM0'', cand ''/tmp/d/ttyACM2'', cand ''/tmp/d/ttyUSB0''])"

definition test_candidates_empty_dev :: bool where
  "test_candidates_empty_dev \<longleftrightarrow>
     (let fs = temp_fs [(''/tmp/d'', [])] []
      in candidates fs ''/tmp/d'' = [] \<and> candidates fs (join ''/tmp/d'' ''missing'') = [])"

definition test_natural_key :: bool where
  "test_natural_key \<longleftrightarrow>
     sort_key natural_key [''ttyACM10'', ''ttyACM9'', ''ttyACM1'', ''ttyACM''] = [''ttyACM'', ''ttyACM1'', ''ttyACM9'', ''ttyACM10'']"

definition test_busy_devices :: bool where
  "test_busy_devices \<longleftrightarrow>
     (let fs = temp_fs
        [(''/tmp/p'', [''100'', ''200'', ''300'', ''self'']),
         (''/tmp/p/100/fd'', [''3'']), (''/tmp/p/200/fd'', [''3'']), (''/tmp/p/300/fd'', [''3''])]
        [(''/tmp/p/100/fd/3'', Some ''/dev/ttyACM0''), (''/tmp/p/200/fd/3'', Some ''/dev/null''),
         (''/tmp/p/300/fd/3'', Some ''/dev/ttyUSB0'')];
          busy = busy_devices fs ''/tmp/p'' 300 [cand ''/dev/ttyACM0'', cand ''/dev/ttyUSB0'']
      in busy = [''/dev/ttyACM0'' \<mapsto> 100])"

definition test_open :: "u32 \<Rightarrow> path \<Rightarrow> port io_result" where
  "test_open random path =
     (if path = ''/dev/missing'' then Inl (Io_error NotFound ''no such device'')
      else if path = ''/dev/silent'' then Inr (mock_port silent FAST random clock)
      else if path = ''/dev/echo'' then Inr (mock_port echo FAST random clock)
      else if path = ''/dev/radio1'' then Inr (mock_port (fake_radio 0x1111) FAST random clock)
      else Inr (mock_port (fake_radio 0x2222) FAST random clock))"

definition test_scan_picks_first_answering_port :: "u32 \<Rightarrow> bool" where
  "test_scan_picks_first_answering_port random \<longleftrightarrow>
     (let candidates = map cand [''/dev/busy'', ''/dev/missing'', ''/dev/silent'', ''/dev/echo'', ''/dev/radio1'', ''/dev/radio2''];
          busy = [''/dev/busy'' \<mapsto> 42];
          (opened, result) = scan wire_proto busy (test_open random) FAST candidates
      in (case result of
            Some (Some found) \<Rightarrow> ri_my_node_num (fo_info found) = 0x1111
          | _ \<Rightarrow> False) \<and>
         opened = [''/dev/missing'', ''/dev/silent'', ''/dev/echo'', ''/dev/radio1''])"

definition test_scan_none_answer :: "u32 \<Rightarrow> bool" where
  "test_scan_none_answer random \<longleftrightarrow>
     snd (scan wire_proto Map.empty (\<lambda>_. Inr (mock_port silent FAST random clock)) FAST [cand ''/dev/silent'']) = Some None \<and>
     scan wire_proto Map.empty (test_open random) FAST [] = ([], Some None)"

definition test_probe_answers_after_resend :: "u32 \<Rightarrow> bool" where
  "test_probe_answers_after_resend random =
     (case probe wire_proto (mock_port (late (fake_radio 0x3333)) FAST random clock) FAST of
        Some (Inr info) \<Rightarrow> ri_my_node_num info = 0x3333 | _ \<Rightarrow> False)"

definition test_probe_rejects_chatty_device :: "u32 \<Rightarrow> bool" where
  "test_probe_rejects_chatty_device random =
     (case probe wire_proto (mock_port chatty FAST random clock) FAST of
        Some (Inl e) \<Rightarrow> error_kind e = TimedOut | _ \<Rightarrow> False)"

definition test_probe_only_writes_want_config :: "u32 \<Rightarrow> bool" where
  "test_probe_only_writes_want_config random =
     (let (written, result) = probe_port wire_proto random FAST None 0 (po_inputs (mock_port silent FAST random clock));
          frames = snd (feed_bytes FrameReader_new (concat written))
      in (case result of Some (Inl e) \<Rightarrow> error_kind e = TimedOut | _ \<Rightarrow> False) \<and>
         2 \<le> length frames \<and> list_all (\<lambda>(a, b). a = b) (zip frames (tl frames)) \<and>
         (case unwire_to_radio (hd frames) of Some (To_want_config_id i) \<Rightarrow> True | _ \<Rightarrow> False))"

section \<open>Turns of the mock port\<close>

text \<open>The handshake loop on the inputs of the mock port.\<close>

definition mock_run ::
  "hs_config \<Rightarrow> responder \<Rightarrow> nat \<Rightarrow> hops hs_state \<Rightarrow> bytes \<Rightarrow> nat list \<Rightarrow> bytes list \<times> hops radio_info io_result option" where
  "mock_run c respond calls s read_buf nows = hs_loop wire_proto c s (mock_inputs wire_proto c respond calls s read_buf nows)"

lemma quiet_turn: "undisturbed c s now \<Longrightarrow> hs_iteration P c (quiet_input now) s = ([], Hs_continue s)"
  by (simp add: undisturbed_iteration quiet_input_def hs_on_read_def timed_out_def)

lemma byte_turn: "(quiet_input now)\<lparr>hi_read := Read_ok [b]\<rparr> = byte_input now b"
  by (simp add: quiet_input_def byte_input_def)

lemma mock_idle_turn:
  assumes "undisturbed c s now"
  shows "mock_run c respond calls s [] (now # nows) = mock_run c respond calls s [] nows"
proof -
  have i: "(quiet_input now)\<lparr>hi_read := Read_err (Io_error TimedOut m)\<rparr> =
      \<lparr>hi_now = now, hi_resend_write = None, hi_read = Read_err (Io_error TimedOut m), hi_reboot_write = None\<rparr>" for m
    by (simp add: quiet_input_def)
  show ?thesis
    using assms
    by (simp add: mock_run_def quiet_turn mock_read_def undisturbed_iteration i hs_on_read_def)
qed

lemma mock_idle: "undisturbed c s now \<Longrightarrow> mock_run c respond calls s [] (replicate n now @ nows) = mock_run c respond calls s [] nows"
  by (induction n) (simp_all add: mock_idle_turn)

lemma mock_byte_turn:
  assumes "undisturbed c s now"
  shows "mock_run c respond calls s (b # read_buf) (now # nows) =
    (case hs_on_read wire_proto c (byte_input now b) s of
       (ws, Hs_done r) \<Rightarrow> (ws, Some r)
     | (ws, Hs_continue s') \<Rightarrow>
         (case mock_run c respond (calls + length ws) s' (read_buf @ responses respond calls ws) nows of
            (ws', r) \<Rightarrow> (ws @ ws', r)))"
  using quiet_turn [OF assms, of wire_proto] undisturbed_iteration [of c s "byte_input now b" wire_proto] assms
  by (simp add: mock_run_def mock_read_def byte_turn Let_def split: prod.split hs_step.split)

lemma mock_silent_bytes:
  assumes "undisturbed c s now" and "feed_bytes (hs_reader s) bs = (r, [])"
  shows "mock_run c respond calls s (bs @ read_buf) (replicate (length bs) now @ nows) =
    mock_run c respond calls (s\<lparr>hs_reader := r\<rparr>) read_buf nows"
  using assms
proof (induction bs arbitrary: s)
  case (Cons b bs)
  obtain r' where r': "feed (hs_reader s) b = (r', None)" "feed_bytes r' bs = (r, [])"
    using Cons.prems(2) by (auto split: prod.splits option.splits)
  have "mock_run c respond calls s (b # bs @ read_buf) (now # replicate (length bs) now @ nows) =
      mock_run c respond calls (s\<lparr>hs_reader := r'\<rparr>) (bs @ read_buf) (replicate (length bs) now @ nows)"
    using Cons.prems(1) r'(1) by (simp add: mock_byte_turn hs_on_read_def)
  then show ?case using Cons.IH [of "s\<lparr>hs_reader := r'\<rparr>"] Cons.prems(1) r'(2) by simp
qed (simp add: same_reader)

lemma mock_frame:
  assumes "undisturbed c s now" and "hs_reader s = FrameReader_new" and "length p \<le> MAX_PACKET_SIZE"
    and "hs_on_payload wire_proto c None s p = ([], step)"
  shows "mock_run c respond calls s (frame_payload p @ read_buf) (replicate (length (frame_payload p)) now @ nows) =
    (case step of Hs_done r \<Rightarrow> ([], Some r) | Hs_continue s' \<Rightarrow> mock_run c respond calls s' read_buf nows)"
proof -
  obtain front b r where f: "frame_payload p = front @ [b]" "feed_bytes FrameReader_new front = (r, [])"
      "feed r b = (FrameReader_new, Some p)"
    by (rule frame_last_byte [OF assms(3)])
  have "mock_run c respond calls s (frame_payload p @ read_buf) (replicate (length (frame_payload p)) now @ nows) =
      mock_run c respond calls (s\<lparr>hs_reader := r\<rparr>) (b # read_buf) (now # nows)"
    using mock_silent_bytes [OF assms(1), of front r respond calls "b # read_buf" "now # nows"] f(1,2) assms(2)
    by (simp add: replicate_append_same [symmetric])
  also have "\<dots> = (case step of Hs_done r \<Rightarrow> ([], Some r) | Hs_continue s' \<Rightarrow> mock_run c respond calls s' read_buf nows)"
    using assms(1,2,4) f(3) by (simp add: mock_byte_turn hs_on_read_def same_reader split: hs_step.split)
  finally show ?thesis .
qed

text \<open>A request that is due is written first; then the turn is an undisturbed one.\<close>

lemma mock_resend:
  assumes "\<not> hs_heard s" and "hc_probe c = Some p" and "hs_next_resend s = Some t" and "t \<le> now"
    and "now \<le> hc_start c + pt_first_frame p" and "now \<le> hc_deadline c" and "0 < pt_resend p"
  shows "mock_run c respond calls s read_buf (now # nows) =
    (case mock_run c respond (Suc calls) (s\<lparr>hs_next_resend := Some (now + pt_resend p)\<rparr>)
        (read_buf @ respond calls (hc_frame c)) (now # nows) of
       (ws, r) \<Rightarrow> (hc_frame c # ws, r))"
proof -
  let ?s = "s\<lparr>hs_next_resend := Some (now + pt_resend p)\<rparr>"
  have und: "undisturbed c ?s now" using assms by (simp add: undisturbed_def)
  have due: "hs_iteration wire_proto c i s = (case hs_iteration wire_proto c i ?s of (ws, step) \<Rightarrow> (hc_frame c # ws, step))"
    if "hi_now i = now" and "hi_resend_write i = None" for i
    using undisturbed_iteration [of c ?s i wire_proto] und assms that by (simp add: hs_iteration_def Let_def)
  have i: "hi_now ((quiet_input now)\<lparr>hi_read := o'\<rparr>) = now" "hi_resend_write ((quiet_input now)\<lparr>hi_read := o'\<rparr>) = None" for o'
    by (simp_all add: quiet_input_def)
  have q: "hs_iteration wire_proto c (quiet_input now) s = ([hc_frame c], Hs_continue ?s)"
    using due [of "quiet_input now"] quiet_turn [OF und] by (simp add: quiet_input_def)
  show ?thesis
    using due [OF i] by (simp add: mock_run_def q quiet_turn [OF und] Let_def split: prod.split hs_step.split)
qed

lemma mock_expired:
  assumes "\<not> hs_heard s" and "hc_probe c = Some p" and "hc_start c + pt_first_frame p < now" and "now \<le> hc_deadline c"
  shows "mock_run c respond calls s read_buf (now # nows) = ([], Some (Inl (timed_out ''no Meshtastic reply'')))"
  using assms by (simp add: mock_run_def hs_iteration_def quiet_input_def Let_def split: prod.split)

abbreviation fast_config :: "u32 \<Rightarrow> hs_config" where
  "fast_config random \<equiv> hs_config_for wire_proto random 0 2000 (Some FAST)"

abbreviation fast_state :: "nat \<Rightarrow> hops hs_state" where
  "fast_state t \<equiv> (hs_initial 0 (Some FAST))\<lparr>hs_next_resend := Some t\<rparr>"

lemma FAST_simps [simp]: "pt_first_frame FAST = 300" "pt_resend FAST = 100" "pt_total FAST = 2000"
  by (simp_all add: FAST_def)

lemma fast_simps [simp]:
  "hc_probe (fast_config random) = Some FAST" "hc_start (fast_config random) = 0" "hc_deadline (fast_config random) = 2000"
  "hc_frame (fast_config random) = frame_payload (want_config_request wire_proto random)"
  "hc_request (fast_config random) = want_config_request wire_proto random" "hc_config_id (fast_config random) = random"
  "\<not> hs_heard (fast_state t)" "hs_reader (hs_initial 0 (Some FAST)) = FrameReader_new"
  by (simp_all add: hs_config_for_def hs_initial_def)

lemma probe_mock:
  "probe_port wire_proto random FAST None 0 (po_inputs (mock_port respond FAST random nows)) =
    (case mock_run (fast_config random) respond 1 (fast_state 100)
        (respond 0 (frame_payload (want_config_request wire_proto random))) nows of
       (ws, r) \<Rightarrow> (frame_payload (want_config_request wire_proto random) # ws, r))"
proof -
  have "hs_initial 0 (Some FAST) = fast_state 100" by (simp add: hs_initial_def)
  then show ?thesis by (simp add: probe_port_def run_handshake_def mock_port_def mock_run_def Let_def)
qed

lemma probe_mock_port:
  "probe wire_proto (mock_port respond FAST random nows) FAST =
    snd (mock_run (fast_config random) respond 1 (fast_state 100)
      (respond 0 (frame_payload (want_config_request wire_proto random))) nows)"
proof -
  have "po_config_id (mock_port respond FAST random nows) = random" "po_first_write (mock_port respond FAST random nows) = None"
    "po_start (mock_port respond FAST random nows) = 0"
    by (simp_all add: mock_port_def Let_def)
  then show ?thesis by (simp only: probe_def probe_mock) (simp split: prod.split)
qed

section \<open>The tests of the directories pass\<close>

lemmas name_simps = natural_key_def is_digit_def parse_unsigned_def digits_value_def less_eq_char_def less_char_def

lemma natural_key_passes: "test_natural_key"
  by (simp add: test_natural_key_def) (simp add: name_simps)

lemma candidates_empty_passes: "test_candidates_empty_dev"
  by (simp add: test_candidates_empty_dev_def temp_fs_def candidates_def sorted_entries_def join_def)

lemma busy_devices_passes: "test_busy_devices"
  by (simp add: test_busy_devices_def busy_devices_def temp_fs_def busy_of_proc_def busy_of_fd_def join_def cand_def
      name_simps map_filter_simps)

lemma candidates_passes: "test_candidates_order_and_dedupe"
  by (simp add: test_candidates_order_and_dedupe_def temp_fs_def candidates_def sorted_entries_def join_def map_filter_simps
      add_alias_def add_numbered_def cand_def numbered_def name_simps Let_def)

section \<open>The tests of the scan and the probe pass\<close>

lemma replicate_part: "m \<le> n \<Longrightarrow> replicate n x = replicate m x @ replicate (n - m) x"
  by (simp add: replicate_add [symmetric])

lemma length_says:
  "length (frame_payload (radio_says (From_my_info n x))) = 21"
  "length (frame_payload (radio_says (From_config_complete_id i))) = 13"
  "length (frame_payload (want_config_request wire_proto i)) = 9"
  by (simp_all add: frame_payload_shape radio_says_def want_config_request_def)

lemma fast_undisturbed: "now < t \<Longrightarrow> now \<le> 300 \<Longrightarrow> undisturbed (fast_config random) (fast_state t) now"
  by (simp add: undisturbed_def)

lemma received_request:
  "snd (feed_bytes FrameReader_new (frame_payload (want_config_request wire_proto i))) = [want_config_request wire_proto i]"
  using serial_link.arrives [OF request_length [of i]] by simp

lemma fake_radio_reply:
  "fake_radio node calls (frame_payload (want_config_request wire_proto i)) =
    frame_payload (radio_says (From_my_info node (0, 0))) @ frame_payload (radio_says (From_config_complete_id i))"
  unfolding fake_radio_def received_request by (simp add: radio_reply_def want_config_request_def)

lemma radio_answers:
  assumes "now < t" and "now \<le> 300"
  shows "\<exists>info. ri_my_node_num info = node \<and> mock_run (fast_config random) respond calls (fast_state t)
      (frame_payload (radio_says (From_my_info node (0, 0))) @ frame_payload (radio_says (From_config_complete_id random)))
      (replicate 40 now @ nows) = ([], Some (Inr info))"
proof -
  let ?c = "fast_config random" and ?s = "fast_state t"
  let ?s1 = "?s\<lparr>hs_heard := True, hs_node := Some node\<rparr>"
  let ?a = "radio_says (From_my_info node (0, 0))" and ?b = "radio_says (From_config_complete_id random)"
  have on: "hs_on_payload wire_proto ?c None s (radio_says v) = hs_on_variant ?c None (s\<lparr>hs_heard := True\<rparr>) v"
    if "wired \<lparr>fr_id = 0, fr_payload_variant = Some v\<rparr>" "length (radio_says v) \<le> MAX_PACKET_SIZE" for v and s :: "hops hs_state"
    using on_reply [of wire_proto ?c "radio_says v" v None s] reply_radio_says [OF that, of random] by simp
  have nows: "replicate 40 now @ nows =
      replicate (length (frame_payload ?a)) now @ replicate (length (frame_payload ?b)) now @ replicate 6 now @ nows"
    unfolding length_says append_assoc [symmetric] replicate_add [symmetric] by simp
  let ?info = "(hs_info ?s)\<lparr>ri_my_node_num := node\<rparr>"
  have a: "hs_on_payload wire_proto ?c None ?s ?a = ([], Hs_continue ?s1)" by (simp add: on)
  have b: "hs_on_payload wire_proto ?c None ?s1 ?b = ([], Hs_done (Inr ?info))" by (simp add: on)
  have "undisturbed ?c ?s1 now" using assms by (simp add: undisturbed_def)
  note mock_frame [OF this _ _ b, of respond calls "[]" "replicate 6 now @ nows"]
    mock_frame [OF fast_undisturbed [OF assms] _ _ a, of respond calls "frame_payload ?b"
      "replicate (length (frame_payload ?b)) now @ replicate 6 now @ nows"]
  then have "mock_run ?c respond calls ?s (frame_payload ?a @ frame_payload ?b) (replicate 40 now @ nows) = ([], Some (Inr ?info))"
    unfolding nows by (simp del: length_append)
  then show ?thesis by simp
qed

lemma fake_radio_answers:
  "\<exists>info. ri_my_node_num info = node \<and> probe wire_proto (mock_port (fake_radio node) FAST random clock) FAST = Some (Inr info)"
  using radio_answers [of 1 100 node random "fake_radio node" 1 "replicate 40 100 @ [301]"]
  by (auto simp: probe_mock_port fake_radio_reply clock_def)

text \<open>A turn with a due request that meets no answer, and the last one.\<close>

lemma fast_resend:
  assumes "t \<le> now" and "now \<le> 300" and "0 < n"
  shows "mock_run (fast_config random) respond calls (fast_state t) read_buf (replicate n now @ nows) =
    (case mock_run (fast_config random) respond (Suc calls) (fast_state (now + 100))
        (read_buf @ respond calls (frame_payload (want_config_request wire_proto random))) (replicate n now @ nows) of
       (ws, r) \<Rightarrow> (frame_payload (want_config_request wire_proto random) # ws, r))"
proof (cases n)
  case (Suc m)
  then show ?thesis
    using mock_resend [of "fast_state t" "fast_config random" FAST t now respond calls read_buf "replicate m now @ nows"] assms
    by simp
qed (use assms in simp)

lemma fast_expired:
  "300 < now \<Longrightarrow> now \<le> 2000 \<Longrightarrow> mock_run (fast_config random) respond calls (fast_state t) read_buf (now # nows) =
    ([], Some (Inl (timed_out ''no Meshtastic reply'')))"
  using mock_expired [of "fast_state t" "fast_config random" FAST] by simp

lemma fast_idle:
  "now < t \<Longrightarrow> now \<le> 300 \<Longrightarrow> mock_run (fast_config random) respond calls (fast_state t) [] (replicate n now @ nows) =
    mock_run (fast_config random) respond calls (fast_state t) [] nows"
  by (rule mock_idle) (rule fast_undisturbed)

lemma late_radio_passes: "test_probe_answers_after_resend random"
proof -
  let ?r = "late (fake_radio 0x3333)"
  have "mock_run (fast_config random) ?r 1 (fast_state 100) [] clock =
      mock_run (fast_config random) ?r 1 (fast_state 100) [] (replicate 40 100 @ [301])"
    unfolding clock_def by (rule fast_idle) simp_all
  moreover obtain info where "ri_my_node_num info = 0x3333" "mock_run (fast_config random) ?r 2 (fast_state 200)
      (?r 1 (frame_payload (want_config_request wire_proto random))) (replicate 40 100 @ [301]) = ([], Some (Inr info))"
    using radio_answers [of 100 200 "0x3333" random ?r 2 "[301]"] by (auto simp: late_def fake_radio_reply)
  ultimately show ?thesis
    using fast_resend [of 100 100 40 random ?r 1 "[]" "[301]"]
    by (simp add: test_probe_answers_after_resend_def probe_mock_port numeral_2_eq_2) (simp add: late_def)
qed

text \<open>A device whose replies pass without effect is given up, after the request has been repeated.\<close>

lemma deaf_run:
  assumes "\<And>k now t calls nows. now < t \<Longrightarrow> now \<le> 300 \<Longrightarrow>
      mock_run (fast_config random) respond calls (fast_state t)
        (respond k (frame_payload (want_config_request wire_proto random))) (replicate 40 now @ nows) =
      mock_run (fast_config random) respond calls (fast_state t) [] nows"
  shows "mock_run (fast_config random) respond 1 (fast_state 100)
      (respond 0 (frame_payload (want_config_request wire_proto random))) clock =
    ([frame_payload (want_config_request wire_proto random)], Some (Inl (timed_out ''no Meshtastic reply'')))"
  unfolding clock_def by (simp add: assms fast_resend fast_expired)

lemma deaf_probe:
  assumes "\<And>k now t calls nows. now < t \<Longrightarrow> now \<le> 300 \<Longrightarrow>
      mock_run (fast_config random) respond calls (fast_state t)
        (respond k (frame_payload (want_config_request wire_proto random))) (replicate 40 now @ nows) =
      mock_run (fast_config random) respond calls (fast_state t) [] nows"
  shows "probe wire_proto (mock_port respond FAST random clock) FAST = Some (Inl (timed_out ''no Meshtastic reply''))"
  by (simp add: probe_mock_port deaf_run [OF assms] del: One_nat_def)

lemma silent_port:
  assumes "now < t" and "now \<le> 300"
  shows "mock_run (fast_config random) silent calls (fast_state t) (silent k w) (replicate 40 now @ nows) =
    mock_run (fast_config random) silent calls (fast_state t) [] nows"
  using assms by (simp add: silent_def fast_idle)

lemma frame_without_effect:
  assumes "now < t" and "now \<le> 300" and "length p \<le> MAX_PACKET_SIZE" and "length (frame_payload p) \<le> n"
    and "hs_on_payload wire_proto (fast_config random) None (fast_state t) p = ([], Hs_continue (fast_state t))"
  shows "mock_run (fast_config random) respond calls (fast_state t) (frame_payload p) (replicate n now @ nows) =
    mock_run (fast_config random) respond calls (fast_state t) [] nows"
  using mock_frame [OF fast_undisturbed [OF assms(1,2)] _ assms(3,5), of respond calls "[]"
      "replicate (n - length (frame_payload p)) now @ nows"]
  unfolding replicate_part [OF assms(4)] append_assoc by (simp add: fast_idle assms(1,2) del: length_frame_payload)

lemma echo_port:
  assumes "now < t" and "now \<le> 300"
  shows "mock_run (fast_config random) echo calls (fast_state t)
      (echo k (frame_payload (want_config_request wire_proto random))) (replicate 40 now @ nows) =
    mock_run (fast_config random) echo calls (fast_state t) [] nows"
proof -
  have "hs_on_payload wire_proto (fast_config random) None (fast_state t) (want_config_request wire_proto random) =
      ([], Hs_continue (fast_state t))"
    by (simp add: hs_on_payload_def split: option.split)
  then show ?thesis
    unfolding echo_def by (intro frame_without_effect assms request_length) (simp_all only: length_says)
qed

lemma chatty_port:
  assumes "now < t" and "now \<le> 300"
  shows "mock_run (fast_config random) chatty calls (fast_state t) (chatty k w) (replicate 40 now @ nows) =
    mock_run (fast_config random) chatty calls (fast_state t) [] nows"
proof -
  let ?noise = "as_bytes ''AT'' @ [0x0D, 0x0A] @ as_bytes ''OK'' @ [0x0D, 0x0A]"
  have noise: "START1 \<notin> set ?noise" by (simp add: START1_def)
  have "hs_reader (fast_state t) = FrameReader_new" by simp
  with noise_ignored [OF noise, of "[]"] have fed: "feed_bytes (hs_reader (fast_state t)) ?noise = (FrameReader_new, [])"
    by (simp only: append_Nil2 feed_bytes.simps(1))
  have frame: "frame_payload [0xFF, 0xFF] = [0x94, 0xC3, 0x00, 0x02, 0xFF, 0xFF]"
    by (simp add: frame_payload_shape START1_def START2_def drop_bit_eq_div flip: numeral_2_eq_2)
  have "hs_on_payload wire_proto (fast_config random) None (fast_state t) [0xFF, 0xFF] = ([], Hs_continue (fast_state t))"
    by (simp add: hs_on_payload_def unwire_from_radio_def)
  then have "mock_run (fast_config random) chatty calls (fast_state t) (frame_payload [0xFF, 0xFF]) (replicate 32 now @ nows) =
      mock_run (fast_config random) chatty calls (fast_state t) [] nows"
    by (intro frame_without_effect assms) (simp_all add: MAX_PACKET_SIZE_def frame)
  moreover have "mock_run (fast_config random) chatty calls (fast_state t) (?noise @ frame_payload [0xFF, 0xFF])
      (replicate (length ?noise) now @ replicate 32 now @ nows) =
      mock_run (fast_config random) chatty calls (fast_state t) (frame_payload [0xFF, 0xFF]) (replicate 32 now @ nows)"
    unfolding mock_silent_bytes [OF fast_undisturbed [OF assms] fed] by (simp add: same_reader)
  moreover have "chatty k w = ?noise @ frame_payload [0xFF, 0xFF]" by (simp add: chatty_def frame)
  moreover have "replicate 40 now @ nows = replicate (length ?noise) now @ replicate 32 now @ nows"
    unfolding append_assoc [symmetric] replicate_add [symmetric] by simp
  ultimately show ?thesis by (simp only:)
qed

lemma deaf_ports:
  "probe wire_proto (mock_port silent FAST random clock) FAST = Some (Inl (timed_out ''no Meshtastic reply''))"
  "probe wire_proto (mock_port echo FAST random clock) FAST = Some (Inl (timed_out ''no Meshtastic reply''))"
  "probe wire_proto (mock_port chatty FAST random clock) FAST = Some (Inl (timed_out ''no Meshtastic reply''))"
  by (rule deaf_probe, rule silent_port echo_port chatty_port, assumption+)+

lemma scan_tests:
  "test_scan_picks_first_answering_port random" "test_scan_none_answer random" "test_probe_rejects_chatty_device random"
proof -
  obtain info where "ri_my_node_num info = 0x1111" "probe wire_proto (mock_port (fake_radio 0x1111) FAST random clock) FAST = Some (Inr info)"
    using fake_radio_answers by blast
  then show "test_scan_picks_first_answering_port random"
    by (simp add: test_scan_picks_first_answering_port_def cand_def test_open_def deaf_ports)
  show "test_scan_none_answer random" by (simp add: test_scan_none_answer_def cand_def deaf_ports)
  show "test_probe_rejects_chatty_device random"
    by (simp add: test_probe_rejects_chatty_device_def deaf_ports timed_out_def)
qed

lemma only_want_config_passes: "test_probe_only_writes_want_config random"
proof -
  let ?q = "want_config_request wire_proto random"
  have "probe_port wire_proto random FAST None 0 (po_inputs (mock_port silent FAST random clock)) =
      ([frame_payload ?q, frame_payload ?q], Some (Inl (timed_out ''no Meshtastic reply'')))"
    by (simp add: probe_mock deaf_run [OF silent_port] del: One_nat_def)
  moreover have "feed_bytes FrameReader_new (frame_payload ?q @ frame_payload ?q) = (FrameReader_new, [?q, ?q])"
    using serial_link.arrives [OF request_length [of random]] by (simp only: feed_bytes_append prod.case append_Cons append_Nil)
  ultimately show ?thesis
    by (simp add: test_probe_only_writes_want_config_def timed_out_def del: feed_bytes.simps) (simp add: want_config_request_def)
qed

text \<open>C40: every unit test of the port detection passes on the model, with the mock ports in a closed loop and for
  every number the request may draw: the candidates and their order, the busy devices, the scan that passes
  over busy, missing, silent and echoing ports to the first radio, the repeated request, and a device that
  talks but is no radio.\<close>

theorem autodetect_tests_pass:
  "test_candidates_order_and_dedupe \<and> test_candidates_empty_dev \<and> test_natural_key \<and> test_busy_devices \<and>
   test_scan_picks_first_answering_port random \<and> test_scan_none_answer random \<and> test_probe_answers_after_resend random \<and>
   test_probe_rejects_chatty_device random \<and> test_probe_only_writes_want_config random"
  using candidates_passes candidates_empty_passes natural_key_passes busy_devices_passes scan_tests late_radio_passes
    only_want_config_passes by blast

end
