(* ===== verification/Spec2Isabelle.thy ===== *)
theory Spec2Isabelle
  imports Framing Crypto Recent Udp Radio Bridge Bridge_Spec Lan Network Raven Autodetect Session Agreement Threads
    Lifecycle Wire Exchange Discovery Mock Conformance_Framing Conformance_Crypto Conformance_Raven Conformance_Serial Conformance_Bridge
    Conformance_Autodetect
begin

text \<open>
  Verification of \<open>meshtastic-serial-udp\<close>, a bridge between a Meshtastic radio on a serial port and a
  UDP multicast group on the LAN.

  The program.  \<open>main.rs\<close> opens the multicast socket (\<open>udp.rs\<close>) and then loops over sessions with the
  radio: it opens the port, in auto mode by probing the serial devices of the system (\<open>autodetect.rs\<close>);
  it performs the \<open>want_config\<close> handshake (\<open>serial.rs\<close>), which tells it the channels and settings of the
  radio; on OpenWrt it merges in the channels of Raven's configuration (\<open>raven.rs\<close>) and installs what is
  missing; it turns the radio's MQTT client proxy on if necessary; and it runs the bridge (\<open>bridge.rs\<close>).
  The bridge has three threads that read the serial port, read the socket and tick every 15 seconds, and
  send what they see through one channel to the main thread.  That thread forwards packets of the radio to the LAN,
  encrypted with the key of their channel (\<open>crypto.rs\<close>), and packets of the LAN to the radio, which are
  remembered in \<open>RecentPackets\<close> so that they do not come back.  On the serial line every message is framed
  by \<open>serial_framing.rs\<close>.

  Theories, in the order of their imports, and the source each models:
  \<^item> \<open>Prelude\<close>: machine integers as words, byte strings, \<open>io::Error\<close> and \<open>io::Result\<close>, the outcome of one
    \<open>read\<close>, generic lemmas, and two locales: \<open>event_machine\<close>, a handler that keeps an invariant, and \<open>polling_loop\<close>,
    a loop that takes one input in each turn and must end on some.
  \<^item> \<open>Proto\<close>: the protobuf messages by the fields the source names.  Their types and codecs are generated
    at build time and are not part of the sources: the record \<open>'x proto\<close> of codecs and enum numbers is
    a parameter of every definition that uses them.
  \<^item> \<open>Framing\<close> (\<open>serial_framing.rs\<close>): \<open>FrameReader\<close> is the record \<open>frame_reader\<close>, its state machine
    \<open>feed\<close> and \<open>feed_bytes\<close>; \<open>frame_payload\<close>.  The locale \<open>frame_link\<close> is what the users of the link rely on.
  \<^item> \<open>Crypto\<close> (\<open>crypto.rs\<close>): key expansion, channel hash and names, and the AES-CTR loop over the block
    ciphers of the \<open>aes\<close> crate (a parameter).  The locale \<open>cipher_pair\<close> is what the bridge relies on.
  \<^item> \<open>Sample\<close>: a small concrete instance of the two parameters, on which closed examples evaluate.
  \<^item> \<open>Recent\<close> (\<open>RecentPackets\<close> in \<open>bridge.rs\<close>): queue and set; the locale \<open>dedup_window\<close> is a sliding window.
  \<^item> \<open>Udp\<close> (\<open>udp.rs\<close>): the calls that set up the socket, each of which may fail.
  \<^item> \<open>Radio\<close> (\<open>serial.rs\<close>): messages to and from the radio, \<open>run_handshake\<close> with its resends, timeouts and
    reboots, \<open>probe\<close>, \<open>wait_for_reboot\<close>, \<open>channel_keys\<close>.
  \<^item> \<open>Bridge\<close> (\<open>bridge.rs\<close>): \<open>handle_serial_frame\<close>, \<open>handle_udp_packet\<close>, packet encryption, the dispatch loop
    \<open>run_loop\<close> and the loops of the three threads.  \<open>Bridge_Spec\<close> states what crosses it; \<open>Threads\<close> is the
    interleaving of the threads as a step relation; \<open>Lan\<close> is the way from one radio to another.
  \<^item> \<open>Lifecycle\<close> (\<open>Bridge::run\<close>): the threads as they execute, with the stop flag, sends that fail when the receiver
    is gone, and the joins; the inputs that arrive are the labels of its steps.
  \<^item> \<open>Network\<close>: any number of bridges on one LAN as a step relation.  Each host runs \<open>run_loop\<close>'s body, heartbeats
    included; the LAN may lose, delay, repeat and reorder datagrams, the radios may report back what is written to
    them, and sessions may restart at any time.  The firmware of the radios is a parameter (\<open>radio\<close>), relied on
    to keep the mark that the phone ingress puts on packets of the LAN (\<open>keeps_stamp\<close>).
  \<^item> \<open>Raven\<close> (\<open>raven.rs\<close>): JSON deep merge, loading, and the merge into the radio's channels.
  \<^item> \<open>Autodetect\<close> (\<open>autodetect.rs\<close>): candidates in natural order, busy devices, the scan.
  \<^item> \<open>Session\<close> (\<open>main.rs\<close>): opening with growing delays, one session, and the loop over sessions.
    \<open>Agreement\<close> compares the channels the bridge of a session uses with those of the radio.
  \<^item> \<open>Wire\<close>: a concrete codec at full width, with round trips and sizes, to instantiate the protobuf parameter
    where \<open>Sample\<close> is too narrow; it is not the protobuf encoding, of which only such facts are used.
    \<open>Exchange\<close>: a whole frame is one step of the byte-wise handshake loop.
  \<^item> \<open>Discovery\<close>: auto mode from the file system to the first free device on which a radio answers, at whatever
    instants its bytes come.
  \<^item> \<open>Mock\<close> (\<open>test_util.rs\<close>): the mock serial port, whose handles share their buffers through a store.
    \<open>Conformance_*\<close>: every unit test of the sources as a definition.  Tests of the program's own code are proved to
    pass on the model, the mock port in a closed loop with the handshake; a test of the generated codec alone
    is proved from the fact about the codec that it checks.

  State and effects.  State is passed explicitly; a handler returns the new state and the list of what
  it tried to send or write.  The code only logs failures of sending a datagram or writing a packet in the bridge,
  so there an effect is the attempt; elsewhere a failing write is an input and its error is returned.
  A blocking loop takes the finite list of what its environment does, one entry per iteration (the clock,
  the outcome of \<open>read\<close>, the stop flag).  A loop that has used up the list is still running and has the
  result \<open>None\<close>: there is no other fuel, and that a loop returns is proved from what the list contains
  (for a handshake: one instant after the deadline).  Times are milliseconds.  The loop of the tests' mock port
  takes 81 turns: 40 at each of two instants, more than a reply has bytes, and one past the first-frame limit.

  What the lemmas show.  The reader refines a parser of the whole stream and resynchronises; framed
  batches arrive in any chunking.  The cipher loop is CTR mode over a 128-bit big-endian counter, its blocks never repeat,
  and decryption undoes encryption.  \<open>RecentPackets\<close> refines a window over the history.  The handshake refines a function of the frames
  since the last reboot notice, and a probe the same function of the frames from the first genuine reply on.
  The bridge forwards exactly what it should, never echoes, keeps the order of the radio in every interleaving, and ends; a batch of packets crosses from one radio to another.
  \<open>Bridge::run\<close> is never stuck, ends a session only for a reason that lies in its inputs, and then joins its threads and
  returns within a fixed number of steps; during the session what the frames of the radio lead to on the LAN is sent in their
  order, and nothing is left out.  Auto mode returns the first free device on which a radio answers, and only a failure of the
  network ends the program.
  In a network of bridges whose radios report back what is written to them no packet circulates: the LAN carries exactly
  the datagrams of what the radios report of their own, and what a bridge writes to its radio is a heartbeat or a packet
  that the radio of another bridge reported.  The channel merge and its installation
  agree, and so do the keys of the bridge and of the radio after a session's installs.  The main loop writes MQTT settings at most once.
  The locales are interpreted on the model in the theory that provides them; the properties rest on these
  interpretations.

  Integers.  \<open>u8\<close>, \<open>u16\<close>, \<open>u32\<close> are words, so the wrap-around of the counter, the heartbeat nonce and (in a
  release build) of \<open>max_index\<close> is as in the code; \<open>usize\<close> lengths are \<open>nat\<close>.  An \<open>i32\<close> is the same 32 bits.

  Not modelled, because it is pure I/O or not part of the program's own code: logging, command-line parsing by
  \<open>clap\<close>, the 100 ms pause after installing a channel, \<open>build.rs\<close>, the constant
  line settings of the mock serial port, and the packaging and helper scripts.  Texts of
  errors leave out interpolated values.
\<close>

section \<open>Properties that span components\<close>

text \<open>C1: whatever the sizes of the serial reads, a batch of framed packets that the first radio
  reports, with distinct ids, reaches the second radio completely, once each and in order:
  decrypted, on the second radio's channel index, and stamped as coming from the LAN.\<close>

theorem lan_delivery:
  assumes "bridge_inv config channels b'" and "bc_ingress config = Phone"
    and "list_all2 (\<lambda>payload p. decode_frame P payload = Packet p \<and> crosses P A b b' p) payloads ps"
    and "distinct (map packet_key ps)"
    and "packet_key ` set ps \<inter> set (order (br_recent b')) = {}"
    and "\<forall>payload \<in> set payloads. length payload \<le> MAX_PACKET_SIZE"
    and "concat chunks = concat (map frame_payload payloads)" and "[] \<notin> set chunks"
  shows "let events = serial_reader FrameReader_new (map (\<lambda>c. (False, Read_ok c)) chunks);
             sent = snd (run_steps (bridge_step P A) b events);
             received = udp_reader (map (\<lambda>d. (False, Read_ok d)) (datagrams sent))
         in snd (run_steps (bridge_step P A) b' received) = map (\<lambda>p. Write_serial (write_packet P (arrival P b b' p))) ps"
proof -
  have all: "list_all (crosses P A b b') ps"
    using assms(3) by (auto simp: list_all2_conv_all_nth list_all_length)
  have "list_all read_goes_on (map Read_ok chunks)"
    using assms(8) by (induction chunks) (auto simp: read_goes_on_def)
  moreover have "concat (map read_bytes (map Read_ok chunks)) = concat chunks"
    by (simp add: read_bytes_def comp_def)
  ultimately have "serial_reader FrameReader_new (map (\<lambda>c. (False, Read_ok c)) chunks) =
      map SerialFrame (snd (feed_bytes FrameReader_new (concat chunks)))"
    using serial_reader_goes_on [of "map Read_ok chunks" FrameReader_new "[]"] by (simp add: comp_def)
  also have "feed_bytes FrameReader_new (concat chunks) = (FrameReader_new, payloads)"
    using assms(6,7) by (simp only: serial_link.batch_arrives)
  finally have read: "serial_reader FrameReader_new (map (\<lambda>c. (False, Read_ok c)) chunks) = map SerialFrame payloads"
    by simp
  have "list_all (\<lambda>d. length d \<le> 600) (map (\<lambda>p. encode_mesh_packet P (encrypt_packet P A b p)) ps)"
    using all by (auto simp: list_all_iff crosses_def codec_at_def)
  from udp_reader_datagrams [OF this] stream_received [OF all assms(1,2,4,5)] show ?thesis
    by (simp add: read stream_sent [OF assms(3)] comp_def)
qed

theorem lan_delivery_witness:
  "let events = serial_reader FrameReader_new (map (\<lambda>c. (False, Read_ok c))
         [[0x94, 0xC3, 0, 9, 4, 17, 255, 42, 0], [0, 1, 104, 105, 0x94],
          [0xC3, 0, 9, 4, 17, 255, 43, 0, 0, 1, 104, 105]]);
       sent = snd (run_steps (bridge_step sample_proto sample_aes) (sample_bridge Phone 9 0) events);
       received = udp_reader (map (\<lambda>d. (False, Read_ok d)) (datagrams sent))
   in snd (run_steps (bridge_step sample_proto sample_aes) (sample_bridge Phone 7 3) received) =
     map (\<lambda>p. Write_serial (write_packet sample_proto p))
       [sample_packet 17 255 42 3 6 (Some (Decoded (sample_data [104, 105]))),
        sample_packet 17 255 43 3 6 (Some (Decoded (sample_data [104, 105])))]"
proof -
  let ?p = "\<lambda>i. sample_packet 17 255 i 0 0 (Some (Decoded (sample_data [104, 105])))"
  let ?b = "sample_bridge Phone 9 0" and ?b' = "sample_bridge Phone 7 3"
  have arr: "arrival sample_proto ?b ?b' (?p i) = sample_packet 17 255 i 3 6 (Some (Decoded (sample_data [104, 105])))" for i
    by (simp add: arrival_def sending_channel_def receiving_channel_def)
  have "map (\<lambda>p. Write_serial (write_packet sample_proto p))
       [sample_packet 17 255 42 3 6 (Some (Decoded (sample_data [104, 105]))),
        sample_packet 17 255 43 3 6 (Some (Decoded (sample_data [104, 105])))] =
     map (\<lambda>p. Write_serial (write_packet sample_proto (arrival sample_proto ?b ?b' p))) [?p 42, ?p 43]"
    by (simp add: arr)
  then show ?thesis
    by (simp only:, intro lan_delivery [OF sample_bridge_inv,
          where payloads = "[[4, 17, 255, 42, 0, 0, 1, 104, 105], [4, 17, 255, 43, 0, 0, 1, 104, 105]]"])
      (simp_all add: sample_crosses decode_frame_def packet_key_def RecentPackets_new_def frame_payload_short
        START1_def START2_def MAX_PACKET_SIZE_def)
qed

end
